theory Spec2Isabelle
  imports Main "HOL-Library.Multiset"
begin

section \<open>The validate command of qbec (internal/commands/validate.go)\<close>

subsection \<open>Constants\<close>

text \<open>Go strings are byte sequences; the glyphs are written as their UTF-8 bytes.\<close>

definition escGreen :: string where
  "escGreen = CHR 0x1B # ''[32m''"

definition escRed :: string where
  "escRed = CHR 0x1B # ''[31m''"

definition escDim :: string where
  "escDim = CHR 0x1B # ''[2m''"

definition escReset :: string where
  "escReset = CHR 0x1B # ''[0m''"

definition unicodeCheck :: string where
  "unicodeCheck = [CHR 0xE2, CHR 0x9C, CHR 0x94]"

definition unicodeX :: string where
  "unicodeX = [CHR 0xE2, CHR 0x9C, CHR 0x98]"

definition unicodeQuestion :: string where
  "unicodeQuestion = ''?''"

definition nl :: string where
  "nl = [CHR 0x0A]"

definition tab :: string where
  "tab = [CHR 0x09]"

subsection \<open>Errors\<close>

text \<open>
  A Go \<open>error\<close> is an interface value. \<open>ErrSchemaNotFound\<close> is the one sentinel value
  of package remote; \<open>Errorf\<close> is a value made by \<open>fmt.Errorf\<close> or \<open>errors.New\<close> with
  the given text; \<open>Wrapped\<close> is such a value that also wraps a cause; \<open>UsageError\<close> is
  what \<open>newUsageError\<close> builds. The comparison \<open>err == remote.ErrSchemaNotFound\<close> of
  the source is equality with the sentinel constructor: no other constructor is equal
  to it, whatever its text or its cause.
\<close>

datatype error =
    ErrSchemaNotFound
  | Errorf string
  | Wrapped string error
  | UsageError string

text \<open>
  The method \<open>Error()\<close>, which the verb \<open>%v\<close> prints. The sentinel is declared outside
  validate.go; validate never prints it, so its text plays no role below.
\<close>

fun Error :: "error \<Rightarrow> string" where
  "Error ErrSchemaNotFound = ''schema not found''"
| "Error (Errorf s) = s"
| "Error (Wrapped s cause) = s"
| "Error (UsageError s) = s"

text \<open>\<open>strings.Join\<close>.\<close>

fun Join :: "string list \<Rightarrow> string \<Rightarrow> string" where
  "Join [] sep = []"
| "Join [x] sep = x"
| "Join (x # y # ys) sep = x @ sep @ Join (y # ys) sep"

text \<open>The verb \<open>%d\<close> on a non-negative integer.\<close>

definition digit :: "nat \<Rightarrow> char" where
  "digit d = char_of (of_char CHR ''0'' + d)"

fun itoa :: "nat \<Rightarrow> string" where
  "itoa n = (if n < 10 then [digit n] else itoa (n div 10) @ [digit (n mod 10)])"

declare itoa.simps [simp del]

subsection \<open>Objects, the schema client and the statistics\<close>

record GroupVersionKind =
  Group :: string
  Version :: string
  Kind :: string

text \<open>
  \<open>model.K8sLocalObject\<close>: the code reads its kind and its unstructured content, and hands
  the object to the client for its display name. The content type is left open.
\<close>

record 'u K8sLocalObject =
  GetObjectKind :: GroupVersionKind
  GetName :: string
  ToUnstructured :: 'u

text \<open>\<open>remote.Validator\<close>: \<open>Validate\<close> returns the list of violations.\<close>

type_synonym 'u Validator = "'u \<Rightarrow> error list"

text \<open>The interface \<open>validateClient\<close>; a Go result pair (value, error) is a sum.\<close>

record 'u validateClient =
  DisplayName :: "'u K8sLocalObject \<Rightarrow> string"
  ValidatorFor :: "GroupVersionKind \<Rightarrow> error + 'u Validator"

text \<open>
  \<open>validatorStats\<close>. The mutex \<open>l\<close> is not data: each of the four methods holds it for
  its whole body, so each method is one atomic update. \<open>ValidCount\<close> is a Go int that
  is incremented once per valid object, so it is bounded by a slice length and cannot
  wrap; it is an unbounded integer here.
\<close>

record validatorStats =
  ValidCount :: int
  Unknown :: "string list"
  Invalid :: "string list"
  Errors :: "string list"

definition valid :: "string \<Rightarrow> validatorStats \<Rightarrow> validatorStats" where
  "valid s v = v\<lparr>ValidCount := ValidCount v + 1\<rparr>"

definition invalid :: "string \<Rightarrow> validatorStats \<Rightarrow> validatorStats" where
  "invalid s v = v\<lparr>Invalid := Invalid v @ [s]\<rparr>"

definition unknown :: "string \<Rightarrow> validatorStats \<Rightarrow> validatorStats" where
  "unknown s v = v\<lparr>Unknown := Unknown v @ [s]\<rparr>"

definition errors :: "string \<Rightarrow> validatorStats \<Rightarrow> validatorStats" where
  "errors s v = v\<lparr>Errors := Errors v @ [s]\<rparr>"

text \<open>
  The struct \<open>validator\<close>, split into the fields that never change after construction
  (\<open>validator\<close>) and the two that the workers share and mutate (\<open>vstate\<close>): the sink
  \<open>w\<close>, as the sequence of writes it has received, and \<open>stats\<close>.
\<close>

record 'u validator =
  client :: "'u validateClient"
  red :: string
  green :: string
  dim :: string
  reset :: string

record vstate =
  w :: "string list"
  stats :: validatorStats

subsection \<open>validate\<close>

text \<open>
  The effects of one call of validate on the shared state, in program order. Each is
  atomic: \<open>Fprintf\<close> formats its text and hands it to the locked writer in one Write,
  and each statistics method runs under the mutex.
\<close>

datatype action =
    Fprintf string
  | StatsValid string
  | StatsInvalid string
  | StatsUnknown string
  | StatsErrors string

fun perform :: "action \<Rightarrow> vstate \<Rightarrow> vstate" where
  "perform (Fprintf text) s = s\<lparr>w := w s @ [text]\<rparr>"
| "perform (StatsValid n) s = s\<lparr>stats := valid n (stats s)\<rparr>"
| "perform (StatsInvalid n) s = s\<lparr>stats := invalid n (stats s)\<rparr>"
| "perform (StatsUnknown n) s = s\<lparr>stats := unknown n (stats s)\<rparr>"
| "perform (StatsErrors n) s = s\<lparr>stats := errors n (stats s)\<rparr>"

text \<open>A call: the effects it performs, in order, and the error it returns (None is nil).\<close>

type_synonym call = "action list \<times> error option"

definition validate :: "'u validator \<Rightarrow> 'u K8sLocalObject \<Rightarrow> call" where
  "validate v obj =
    (let name = DisplayName (client v) obj in
     case ValidatorFor (client v) (GetObjectKind obj) of
       Inl err \<Rightarrow>
         if err = ErrSchemaNotFound then
           ([Fprintf (dim v @ unicodeQuestion @ '' '' @ name
                      @ '': no schema found, cannot validate'' @ reset v @ nl),
             StatsUnknown name], None)
         else
           ([Fprintf (red v @ unicodeX @ '' '' @ name @ '': schema fetch error ''
                      @ Error err @ reset v @ nl),
             StatsErrors name], Some err)
     | Inr schema \<Rightarrow>
         (let errs = schema (ToUnstructured obj) in
          if length errs = 0 then
            ([Fprintf (green v @ unicodeCheck @ '' '' @ name @ '' is valid'' @ reset v @ nl),
              StatsValid name], None)
          else
            (let lines = map Error errs in
             ([Fprintf (red v @ unicodeX @ '' '' @ name @ '' is invalid'' @ nl @ tab @ ''- ''
                        @ Join lines (nl @ tab @ ''- '') @ reset v @ nl),
               StatsInvalid name], None))))"

text \<open>Running a call to its end on a state, with nothing else in between.\<close>

definition run_call :: "call \<Rightarrow> vstate \<Rightarrow> error option \<times> vstate" where
  "run_call c s = (snd c, fold perform (fst c) s)"

subsection \<open>The bounded executor\<close>

text \<open>
  Modelled from the spec: runInParallel is declared in another file of package commands.
  The spec (sections 4.3, 5 and 6) gives its contract: a fixed-size pool of workers
  consumes the object list, at most \<open>maxConcurrency\<close> validations are in flight, the task
  is invoked on every item exactly once, nothing is cancelled, the executor returns only
  when every invocation has returned, and its result is the first propagated error or nil.

  The pool is a transition system. \<open>queue\<close> holds the items not yet handed out,
  \<open>inflight\<close> the calls in progress (what each has left to do, and what it will return),
  \<open>shared\<close> the state the workers share, \<open>captured\<close> the first error a call returned.
  The scheduler's decisions are the input: \<open>Dispatch\<close> hands the next item to a free
  worker, \<open>Advance i\<close> lets the call in slot \<open>i\<close> perform its next atomic effect, or
  return when it has none left. A decision that is not enabled has no successor; with a
  limit below one no item is ever handed out.
\<close>

record 'u pool =
  queue :: "'u K8sLocalObject list"
  inflight :: "call list"
  shared :: vstate
  captured :: "error option"

datatype choice = Dispatch | Advance nat

fun exec_step ::
  "int \<Rightarrow> ('u K8sLocalObject \<Rightarrow> call) \<Rightarrow> choice \<Rightarrow> 'u pool \<Rightarrow> 'u pool option" where
  "exec_step maxc worker Dispatch p =
     (case queue p of
        [] \<Rightarrow> None
      | obj # rest \<Rightarrow>
          if int (length (inflight p)) < maxc
          then Some (p\<lparr>queue := rest, inflight := inflight p @ [worker obj]\<rparr>)
          else None)"
| "exec_step maxc worker (Advance i) p =
     (if i < length (inflight p) then
        (case inflight p ! i of
           (a # as, r) \<Rightarrow>
             Some (p\<lparr>inflight := (inflight p)[i := (as, r)], shared := perform a (shared p)\<rparr>)
         | ([], r) \<Rightarrow>
             Some (p\<lparr>inflight := take i (inflight p) @ drop (Suc i) (inflight p),
                     captured := (case captured p of None \<Rightarrow> r | Some e \<Rightarrow> Some e)\<rparr>))
      else None)"

fun exec_run ::
  "int \<Rightarrow> ('u K8sLocalObject \<Rightarrow> call) \<Rightarrow> choice list \<Rightarrow> 'u pool \<Rightarrow> 'u pool option" where
  "exec_run maxc worker [] p = Some p"
| "exec_run maxc worker (c # cs) p =
     (case exec_step maxc worker c p of
        None \<Rightarrow> None
      | Some p' \<Rightarrow> exec_run maxc worker cs p')"

text \<open>
  The executor returns when the queue is empty and no call is in flight. A schedule that
  does not lead there is not a run of the executor: the result is None.
\<close>

definition runInParallel ::
  "choice list \<Rightarrow> 'u K8sLocalObject list \<Rightarrow> ('u K8sLocalObject \<Rightarrow> call) \<Rightarrow> int
     \<Rightarrow> vstate \<Rightarrow> (error option \<times> vstate) option" where
  "runInParallel sched objs worker parallel s =
     (case exec_run parallel worker sched
             \<lparr>queue = objs, inflight = [], shared = s, captured = None\<rparr> of
        None \<Rightarrow> None
      | Some p \<Rightarrow>
          if queue p = [] \<and> inflight p = [] then Some (captured p, shared p) else None)"

text \<open>The schedule of a pool that runs one call after the other, in input order.\<close>

fun sequential :: "('u K8sLocalObject \<Rightarrow> call) \<Rightarrow> 'u K8sLocalObject list \<Rightarrow> choice list" where
  "sequential worker [] = []"
| "sequential worker (obj # objs) =
     Dispatch # replicate (Suc (length (fst (worker obj)))) (Advance 0) @ sequential worker objs"

subsection \<open>validateObjects\<close>

text \<open>
  Modelled from the spec: printStats is declared in another file of package commands.
  It emits the final summary of the statistics to the sink (spec, section 4.3, step 4);
  the text of the summary is the parameter \<open>summary\<close>.
\<close>

definition printStats ::
  "(validatorStats \<Rightarrow> string) \<Rightarrow> string list \<Rightarrow> validatorStats \<Rightarrow> string list" where
  "printStats summary sink st = sink @ [summary st]"

text \<open>The struct literal and the \<open>if colors\<close> block; the zero value of a Go string is empty.\<close>

definition newValidator :: "'u validateClient \<Rightarrow> bool \<Rightarrow> 'u validator" where
  "newValidator cl colors =
     \<lparr>client = cl,
      red = (if colors then escRed else []),
      green = (if colors then escGreen else []),
      dim = (if colors then escDim else []),
      reset = (if colors then escReset else [])\<rparr>"

definition emptyStats :: validatorStats where
  "emptyStats = \<lparr>ValidCount = 0, Unknown = [], Invalid = [], Errors = []\<rparr>"

text \<open>
  The result is the returned error together with the final state of the validator
  (the sink and the statistics); None when the executor does not return.
\<close>

definition validateObjects ::
  "(validatorStats \<Rightarrow> string) \<Rightarrow> choice list \<Rightarrow> 'u K8sLocalObject list \<Rightarrow> 'u validateClient
     \<Rightarrow> int \<Rightarrow> bool \<Rightarrow> string list \<Rightarrow> (error option \<times> vstate) option" where
  "validateObjects summary sched objs cl parallel colors out =
     (let v = newValidator cl colors in
      case runInParallel sched objs (validate v) parallel \<lparr>w = out, stats = emptyStats\<rparr> of
        None \<Rightarrow> None
      | Some (vErr, s1) \<Rightarrow>
          (let s2 = s1\<lparr>w := printStats summary (w s1) (stats s1)\<rparr> in
           Some (if vErr \<noteq> None then vErr
                 else if length (Invalid (stats s2)) > 0 then
                   Some (Errorf (itoa (length (Invalid (stats s2))) @ '' invalid objects found''))
                 else None,
                 s2)))"

subsection \<open>doValidate\<close>

text \<open>
  \<open>validateCommandConfig\<close>. Of the embedded \<open>StdOptions\<close> the code uses \<open>Colorize()\<close> and
  \<open>Stdout()\<close>. \<open>filterFunc\<close> takes no argument, so it is the result it returns.
\<close>

record ('u, 'fp) validateCommandConfig =
  Colorize :: bool
  Stdout :: "string list"
  parallel :: int
  filterFunc :: "error + 'fp"
  clientProvider :: "string \<Rightarrow> error + 'u validateClient"

text \<open>The collaborators doValidate calls, recorded in call order.\<close>

datatype collaborator =
    CallFilterFunc
  | CallFilteredObjects string
  | CallClientProvider string
  | CallValidateObjects

text \<open>
  \<open>model.Baseline\<close> and \<open>filteredObjects\<close> are declared outside validate.go and are
  parameters, as are the summary text and the schedule of the executor. The result is
  the trace of collaborator calls and, when doValidate returns, the returned error and
  the writes on the standard output.
\<close>

definition doValidate ::
  "string \<Rightarrow> (('u, 'fp) validateCommandConfig \<Rightarrow> string \<Rightarrow> 'fp \<Rightarrow> error + 'u K8sLocalObject list)
     \<Rightarrow> (validatorStats \<Rightarrow> string) \<Rightarrow> choice list
     \<Rightarrow> string list \<Rightarrow> ('u, 'fp) validateCommandConfig
     \<Rightarrow> collaborator list \<times> (error option \<times> string list) option" where
  "doValidate Baseline filteredObjects summary sched args config =
     (if length args \<noteq> 1 then
        ([], Some (Some (UsageError ''exactly one environment required''), Stdout config))
      else
        (let env = args ! 0 in
         if env = Baseline then
           ([], Some (Some (UsageError
                  ''cannot validate baseline environment, use a real environment''),
                Stdout config))
         else
           (case filterFunc config of
              Inl err \<Rightarrow> ([CallFilterFunc], Some (Some err, Stdout config))
            | Inr fp \<Rightarrow>
                (case filteredObjects config env fp of
                   Inl err \<Rightarrow>
                     ([CallFilterFunc, CallFilteredObjects env], Some (Some err, Stdout config))
                 | Inr objects \<Rightarrow>
                     (case clientProvider config env of
                        Inl err \<Rightarrow>
                          ([CallFilterFunc, CallFilteredObjects env, CallClientProvider env],
                           Some (Some err, Stdout config))
                      | Inr cl \<Rightarrow>
                          ([CallFilterFunc, CallFilteredObjects env, CallClientProvider env,
                            CallValidateObjects],
                           map_option (\<lambda>(e, s). (e, w s))
                             (validateObjects summary sched objects cl (parallel config)
                                (Colorize config) (Stdout config))))))))"

subsection \<open>Measures on effects\<close>

text \<open>
  What a call still has to do, summed over the calls in flight and the items in the
  queue, for a valuation \<open>f\<close> of the single effects.
\<close>

definition outstanding ::
  "(action \<Rightarrow> 'm::comm_monoid_add) \<Rightarrow> ('u K8sLocalObject \<Rightarrow> call) \<Rightarrow> 'u pool \<Rightarrow> 'm" where
  "outstanding f worker p =
     (\<Sum>c\<leftarrow>inflight p. \<Sum>a\<leftarrow>fst c. f a) + (\<Sum>obj\<leftarrow>queue p. \<Sum>a\<leftarrow>fst (worker obj). f a)"

text \<open>The texts a sequence of effects writes to the sink, in order.\<close>

fun writes :: "action list \<Rightarrow> string list" where
  "writes [] = []"
| "writes (Fprintf text # as) = text # writes as"
| "writes (a # as) = writes as"

text \<open>The number of contributions to the statistics an effect makes.\<close>

fun contribution :: "action \<Rightarrow> int" where
  "contribution (Fprintf text) = 0"
| "contribution a = 1"

text \<open>The contribution of an effect to each of the four buckets.\<close>

fun to_valid :: "action \<Rightarrow> int" where
  "to_valid (StatsValid n) = 1"
| "to_valid a = 0"

fun to_unknown :: "action \<Rightarrow> string multiset" where
  "to_unknown (StatsUnknown n) = {#n#}"
| "to_unknown a = {#}"

fun to_invalid :: "action \<Rightarrow> string multiset" where
  "to_invalid (StatsInvalid n) = {#n#}"
| "to_invalid a = {#}"

fun to_errors :: "action \<Rightarrow> string multiset" where
  "to_errors (StatsErrors n) = {#n#}"
| "to_errors a = {#}"

definition tally :: "validatorStats \<Rightarrow> int" where
  "tally st = ValidCount st + int (length (Unknown st)) + int (length (Invalid st))
                + int (length (Errors st))"

text \<open>The error a pool that runs the calls one after the other captures.\<close>

fun first_error :: "error option \<Rightarrow> error option list \<Rightarrow> error option" where
  "first_error e [] = e"
| "first_error e (r # rs) = first_error (case e of None \<Rightarrow> r | Some x \<Rightarrow> Some x) rs"

subsection \<open>Example inputs\<close>

text \<open>
  The example of the spec: a valid object, one with two violations, one of a type with
  no schema, one whose schema lookup fails. The content of an object is the number of
  required fields it lacks; the lookup failure wraps the sentinel.
\<close>

definition exKind :: "string \<Rightarrow> GroupVersionKind" where
  "exKind k = \<lparr>Group = ''apps'', Version = ''v1'', Kind = k\<rparr>"

definition exObject :: "string \<Rightarrow> string \<Rightarrow> nat \<Rightarrow> nat K8sLocalObject" where
  "exObject k n u = \<lparr>GetObjectKind = exKind k, GetName = n, ToUnstructured = u\<rparr>"

definition exFetchError :: error where
  "exFetchError = Wrapped ''fetch: schema not found'' ErrSchemaNotFound"

definition exClient :: "nat validateClient" where
  "exClient =
     \<lparr>DisplayName = GetName,
      ValidatorFor = (\<lambda>g.
        if Kind g = ''Mystery'' then Inl ErrSchemaNotFound
        else if Kind g = ''Flaky'' then Inl exFetchError
        else Inr (\<lambda>u. map (\<lambda>i. Errorf (''field '' @ itoa i @ '' is required'')) [0..<u]))\<rparr>"

definition exObjects :: "nat K8sLocalObject list" where
  "exObjects =
     [exObject ''Deployment'' ''a'' 0, exObject ''Deployment'' ''b'' 2,
      exObject ''Mystery'' ''c'' 0, exObject ''Flaky'' ''d'' 0]"

definition exSummary :: "validatorStats \<Rightarrow> string" where
  "exSummary st = ''valid: '' @ itoa (nat (ValidCount st))
                    @ '', unknown: '' @ itoa (length (Unknown st))
                    @ '', invalid: '' @ itoa (length (Invalid st))
                    @ '', errors: '' @ itoa (length (Errors st)) @ nl"

text \<open>
  A schedule of a pool of five workers on the four objects: all four are handed out,
  they write in reverse order, and the failing call is the first to return.
\<close>

definition exInterleaved :: "choice list" where
  "exInterleaved =
     [Dispatch, Dispatch, Dispatch, Dispatch,
      Advance 3, Advance 2, Advance 1, Advance 0,
      Advance 3, Advance 0, Advance 3,
      Advance 2, Advance 1, Advance 0, Advance 0, Advance 0]"

text \<open>Two invalid objects, and a schedule of three workers where the second records first.\<close>

definition exTwoInvalid :: "nat K8sLocalObject list" where
  "exTwoInvalid = [exObject ''Deployment'' ''b'' 2, exObject ''Service'' ''e'' 1]"

definition exSwapped :: "choice list" where
  "exSwapped =
     [Dispatch, Dispatch, Advance 1, Advance 1, Advance 0, Advance 0, Advance 1, Advance 0]"

definition exConfig :: "(nat, unit) validateCommandConfig" where
  "exConfig =
     \<lparr>Colorize = False, Stdout = [], parallel = 5, filterFunc = Inr (),
      clientProvider = (\<lambda>env. if env = ''dev'' then Inr exClient
                              else Inl (Errorf (''no such environment '' @ env)))\<rparr>"

definition exFilteredObjects ::
  "(nat, unit) validateCommandConfig \<Rightarrow> string \<Rightarrow> unit \<Rightarrow> error + nat K8sLocalObject list" where
  "exFilteredObjects config env fp = Inr exObjects"

text \<open>What the two pools leave behind on the examples.\<close>

definition exInterleavedResult :: "error option \<times> vstate" where
  "exInterleavedResult =
     (Some exFetchError,
      \<lparr>w = [unicodeX @ '' d: schema fetch error fetch: schema not found'' @ nl,
            ''? c: no schema found, cannot validate'' @ nl,
            unicodeX @ '' b is invalid'' @ nl @ tab @ ''- field 0 is required''
              @ nl @ tab @ ''- field 1 is required'' @ nl,
            unicodeCheck @ '' a is valid'' @ nl,
            ''valid: 1, unknown: 1, invalid: 1, errors: 1'' @ nl],
       stats = \<lparr>ValidCount = 1, Unknown = [''c''], Invalid = [''b''], Errors = [''d'']\<rparr>\<rparr>)"

definition exSequentialResult :: "error option \<times> vstate" where
  "exSequentialResult =
     (Some (Errorf ''2 invalid objects found''),
      \<lparr>w = [unicodeX @ '' b is invalid'' @ nl @ tab @ ''- field 0 is required''
              @ nl @ tab @ ''- field 1 is required'' @ nl,
            unicodeX @ '' e is invalid'' @ nl @ tab @ ''- field 0 is required'' @ nl,
            ''valid: 0, unknown: 0, invalid: 2, errors: 0'' @ nl],
       stats = \<lparr>ValidCount = 0, Unknown = [], Invalid = [''b'', ''e''], Errors = []\<rparr>\<rparr>)"

definition exSwappedResult :: "error option \<times> vstate" where
  "exSwappedResult =
     (Some (Errorf ''2 invalid objects found''),
      \<lparr>w = [unicodeX @ '' e is invalid'' @ nl @ tab @ ''- field 0 is required'' @ nl,
            unicodeX @ '' b is invalid'' @ nl @ tab @ ''- field 0 is required''
              @ nl @ tab @ ''- field 1 is required'' @ nl,
            ''valid: 0, unknown: 0, invalid: 2, errors: 0'' @ nl],
       stats = \<lparr>ValidCount = 0, Unknown = [], Invalid = [''e'', ''b''], Errors = []\<rparr>\<rparr>)"

text \<open>
  Some call that returns an error is still to be run, is in flight, or has returned and
  left its error behind.
\<close>

definition error_pending :: "('u K8sLocalObject \<Rightarrow> call) \<Rightarrow> 'u pool \<Rightarrow> bool" where
  "error_pending worker p \<longleftrightarrow>
     (\<exists>obj \<in> set (queue p). snd (worker obj) \<noteq> None)
       \<or> (\<exists>c \<in> set (inflight p). snd c \<noteq> None) \<or> captured p \<noteq> None"

text \<open>
  A list with no invalid object and no failing lookup, and a schedule of two workers on
  it; and what the executor itself returns on the examples, before the summary is printed.
\<close>

definition exHealthy :: "nat K8sLocalObject list" where
  "exHealthy = [exObject ''Deployment'' ''a'' 0, exObject ''Mystery'' ''c'' 0]"

definition exPaired :: "choice list" where
  "exPaired =
     [Dispatch, Dispatch, Advance 0, Advance 1, Advance 1, Advance 0, Advance 0, Advance 0]"

definition exInterleavedExec :: "error option \<times> vstate" where
  "exInterleavedExec =
     (Some exFetchError,
      \<lparr>w = [unicodeX @ '' d: schema fetch error fetch: schema not found'' @ nl,
            ''? c: no schema found, cannot validate'' @ nl,
            unicodeX @ '' b is invalid'' @ nl @ tab @ ''- field 0 is required''
              @ nl @ tab @ ''- field 1 is required'' @ nl,
            unicodeCheck @ '' a is valid'' @ nl],
       stats = \<lparr>ValidCount = 1, Unknown = [''c''], Invalid = [''b''], Errors = [''d'']\<rparr>\<rparr>)"

definition exSequentialExec :: "error option \<times> vstate" where
  "exSequentialExec =
     (None,
      \<lparr>w = [unicodeX @ '' b is invalid'' @ nl @ tab @ ''- field 0 is required''
              @ nl @ tab @ ''- field 1 is required'' @ nl,
            unicodeX @ '' e is invalid'' @ nl @ tab @ ''- field 0 is required'' @ nl],
       stats = \<lparr>ValidCount = 0, Unknown = [], Invalid = [''b'', ''e''], Errors = []\<rparr>\<rparr>)"

definition exSwappedExec :: "error option \<times> vstate" where
  "exSwappedExec =
     (None,
      \<lparr>w = [unicodeX @ '' e is invalid'' @ nl @ tab @ ''- field 0 is required'' @ nl,
            unicodeX @ '' b is invalid'' @ nl @ tab @ ''- field 0 is required''
              @ nl @ tab @ ''- field 1 is required'' @ nl],
       stats = \<lparr>ValidCount = 0, Unknown = [], Invalid = [''e'', ''b''], Errors = []\<rparr>\<rparr>)"

definition exHealthyExec :: "error option \<times> vstate" where
  "exHealthyExec =
     (None,
      \<lparr>w = [unicodeCheck @ '' a is valid'' @ nl,
            ''? c: no schema found, cannot validate'' @ nl],
       stats = \<lparr>ValidCount = 1, Unknown = [''c''], Invalid = [], Errors = []\<rparr>\<rparr>)"

definition exHealthyResult :: "error option \<times> vstate" where
  "exHealthyResult =
     (None,
      \<lparr>w = [unicodeCheck @ '' a is valid'' @ nl,
            ''? c: no schema found, cannot validate'' @ nl,
            ''valid: 1, unknown: 1, invalid: 0, errors: 0'' @ nl],
       stats = \<lparr>ValidCount = 1, Unknown = [''c''], Invalid = [], Errors = []\<rparr>\<rparr>)"

section \<open>Properties\<close>

subsection \<open>Formatting\<close>

lemma Join_prefixed:
  "xs \<noteq> [] \<Longrightarrow> sep @ Join xs sep = concat (map (\<lambda>x. sep @ x) xs)"
  by (induction xs sep rule: Join.induct) simp_all

subsection \<open>The effects of one call\<close>

lemma validate_shape:
  "\<exists>line a. fst (validate v obj) = [Fprintf line, a] \<and>
      a \<in> {StatsValid (DisplayName (client v) obj), StatsUnknown (DisplayName (client v) obj),
           StatsInvalid (DisplayName (client v) obj), StatsErrors (DisplayName (client v) obj)}"
  by (simp add: validate_def Let_def split: sum.splits)

lemma validate_contribution:
  "(\<Sum>a\<leftarrow>fst (validate v obj). contribution a) = 1"
  using validate_shape [of v obj] by auto

lemma validate_writes_length:
  "length (writes (fst (validate v obj))) = 1"
  using validate_shape [of v obj] by auto

lemma perform_tally:
  "tally (stats (perform a s)) = tally (stats s) + contribution a"
  by (cases a) (simp_all add: tally_def valid_def invalid_def unknown_def errors_def)

lemma perform_valid:
  "ValidCount (stats (perform a s)) = ValidCount (stats s) + to_valid a"
  by (cases a) (simp_all add: valid_def invalid_def unknown_def errors_def)

lemma perform_unknown:
  "mset (Unknown (stats (perform a s))) = mset (Unknown (stats s)) + to_unknown a"
  by (cases a) (simp_all add: valid_def invalid_def unknown_def errors_def)

lemma perform_invalid:
  "mset (Invalid (stats (perform a s))) = mset (Invalid (stats s)) + to_invalid a"
  by (cases a) (simp_all add: valid_def invalid_def unknown_def errors_def)

lemma perform_errors:
  "mset (Errors (stats (perform a s))) = mset (Errors (stats s)) + to_errors a"
  by (cases a) (simp_all add: valid_def invalid_def unknown_def errors_def)

lemma perform_writes:
  "mset (w (perform a s)) = mset (w s) + mset (writes [a])"
  by (cases a) simp_all

lemma writes_sum:
  "(\<Sum>a\<leftarrow>as. mset (writes [a])) = mset (writes as)"
  by (induction as rule: writes.induct) simp_all

lemma concat_sum:
  "(\<Sum>x\<leftarrow>xs. mset (g x)) = mset (concat (map g xs))"
  by (induction xs) simp_all

subsection \<open>The pool conserves effects\<close>

lemma sum_list_split_nth:
  fixes g :: "'a \<Rightarrow> 'm::comm_monoid_add"
  assumes "i < length xs"
  shows "sum_list (map g xs)
           = g (xs ! i) + (sum_list (map g (take i xs)) + sum_list (map g (drop (Suc i) xs)))"
proof -
  have "xs = take i xs @ xs ! i # drop (Suc i) xs"
    using assms by (rule id_take_nth_drop)
  then have "sum_list (map g xs)
               = sum_list (map g (take i xs @ xs ! i # drop (Suc i) xs))"
    by simp
  then show ?thesis by (simp add: ac_simps)
qed

lemma sum_list_replace_nth:
  fixes g :: "'a \<Rightarrow> 'm::comm_monoid_add"
  assumes "i < length xs"
  shows "sum_list (map g (xs[i := y]))
           = g y + (sum_list (map g (take i xs)) + sum_list (map g (drop (Suc i) xs)))"
  using assms by (simp add: upd_conv_take_nth_drop ac_simps)

text \<open>
  Whatever a measure \<open>\<mu>\<close> of the shared state gains from an effect, it gains from the
  outstanding effects: their sum is the same before and after every step of the pool.
\<close>

lemma exec_step_balance:
  fixes f :: "action \<Rightarrow> 'm::comm_monoid_add"
  assumes perf: "\<And>a s. \<mu> (perform a s) = \<mu> s + f a"
    and step: "exec_step maxc worker c p = Some p'"
  shows "\<mu> (shared p') + outstanding f worker p' = \<mu> (shared p) + outstanding f worker p"
proof (cases c)
  case Dispatch
  with step show ?thesis
    by (auto simp add: outstanding_def ac_simps split: list.splits if_splits)
next
  case (Advance i)
  with step have i: "i < length (inflight p)"
    by (simp split: if_splits)
  obtain as r where c: "inflight p ! i = (as, r)"
    by (cases "inflight p ! i")
  let ?g = "\<lambda>c::call. \<Sum>a\<leftarrow>fst c. f a"
  note split = sum_list_split_nth [OF i, of ?g]
  show ?thesis
  proof (cases as)
    case Nil
    with step Advance i c
    have p': "p' = p\<lparr>inflight := take i (inflight p) @ drop (Suc i) (inflight p),
                     captured := (case captured p of None \<Rightarrow> r | Some e \<Rightarrow> Some e)\<rparr>"
      by simp
    from split c Nil p' show ?thesis
      by (simp add: outstanding_def)
  next
    case (Cons a rest)
    with step Advance i c
    have p': "p' = p\<lparr>inflight := (inflight p)[i := (rest, r)], shared := perform a (shared p)\<rparr>"
      by simp
    from split c Cons p' sum_list_replace_nth [OF i, of ?g "(rest, r)"] show ?thesis
      by (simp add: outstanding_def perf ac_simps)
  qed
qed

lemma exec_run_balance:
  fixes f :: "action \<Rightarrow> 'm::comm_monoid_add"
  assumes perf: "\<And>a s. \<mu> (perform a s) = \<mu> s + f a"
  shows "exec_run maxc worker sched p = Some p' \<Longrightarrow>
         \<mu> (shared p') + outstanding f worker p' = \<mu> (shared p) + outstanding f worker p"
proof (induction sched arbitrary: p)
  case Nil
  then show ?case by simp
next
  case (Cons c cs)
  then obtain q where q: "exec_step maxc worker c p = Some q"
    and r: "exec_run maxc worker cs q = Some p'"
    by (auto split: option.splits)
  from Cons.IH [OF r] exec_step_balance [of \<mu> f, OF perf q] show ?case
    by simp
qed

lemma runInParallel_balance:
  fixes f :: "action \<Rightarrow> 'm::comm_monoid_add"
  assumes perf: "\<And>a s. \<mu> (perform a s) = \<mu> s + f a"
    and run: "runInParallel sched objs worker limit s = Some (r, s')"
  shows "\<mu> s' = \<mu> s + (\<Sum>obj\<leftarrow>objs. \<Sum>a\<leftarrow>fst (worker obj). f a)"
proof -
  let ?p0 = "\<lparr>queue = objs, inflight = [], shared = s, captured = None\<rparr>"
  from run obtain p where p: "exec_run limit worker sched ?p0 = Some p"
    and fin: "queue p = []" "inflight p = []" and s': "s' = shared p"
    by (auto simp add: runInParallel_def split: option.splits if_splits)
  from exec_run_balance [of \<mu> f, OF perf p] fin s' show ?thesis
    by (simp add: outstanding_def)
qed

subsection \<open>The sink only grows\<close>

lemma exec_step_sink:
  assumes "exec_step maxc worker c p = Some p'"
  shows "\<exists>ls. w (shared p') = w (shared p) @ ls"
proof (cases c)
  case Dispatch
  with assms show ?thesis by (auto split: list.splits if_splits)
next
  case (Advance i)
  obtain as r where c: "inflight p ! i = (as, r)"
    by (cases "inflight p ! i")
  show ?thesis
  proof (cases as)
    case Nil
    with assms Advance c show ?thesis by (auto split: if_splits)
  next
    case (Cons a rest)
    with assms Advance c show ?thesis by (cases a) (auto split: if_splits)
  qed
qed

lemma exec_run_sink:
  "exec_run maxc worker sched p = Some p' \<Longrightarrow> \<exists>ls. w (shared p') = w (shared p) @ ls"
proof (induction sched arbitrary: p)
  case Nil
  then show ?case by simp
next
  case (Cons c cs)
  then obtain q where q: "exec_step maxc worker c p = Some q"
    and r: "exec_run maxc worker cs q = Some p'"
    by (auto split: option.splits)
  from Cons.IH [OF r] exec_step_sink [OF q] show ?case
    by auto
qed

lemma runInParallel_sink:
  assumes "runInParallel sched objs worker limit s = Some (r, s')"
  shows "\<exists>ls. w s' = w s @ ls"
proof -
  let ?p0 = "\<lparr>queue = objs, inflight = [], shared = s, captured = None\<rparr>"
  from assms obtain p where p: "exec_run limit worker sched ?p0 = Some p" and s': "s' = shared p"
    by (auto simp add: runInParallel_def split: option.splits if_splits)
  from exec_run_sink [OF p] s' show ?thesis by simp
qed

subsection \<open>A returned error is not lost\<close>

lemma set_split_nth:
  assumes "i < length xs"
  shows "set xs = insert (xs ! i) (set (take i xs) \<union> set (drop (Suc i) xs))"
proof -
  have "set xs = set (take i xs @ xs ! i # drop (Suc i) xs)"
    using id_take_nth_drop [OF assms] by simp
  then show ?thesis by simp
qed

lemma error_pending_Dispatch:
  assumes "exec_step maxc worker Dispatch p = Some p'"
    and "error_pending worker p"
  shows "error_pending worker p'"
proof -
  from assms(1) obtain obj rest where q: "queue p = obj # rest"
    and p': "p' = p\<lparr>queue := rest, inflight := inflight p @ [worker obj]\<rparr>"
    by (auto split: list.splits if_splits)
  from assms(2) q p' show ?thesis
    by (auto simp add: error_pending_def)
qed

lemma error_pending_return:
  assumes i: "i < length (inflight p)" and c: "inflight p ! i = ([], r)"
    and err: "error_pending worker p"
  shows "error_pending worker
           (p\<lparr>inflight := take i (inflight p) @ drop (Suc i) (inflight p),
              captured := (case captured p of None \<Rightarrow> r | Some e \<Rightarrow> Some e)\<rparr>)"
proof -
  from err consider
      (q) "\<exists>obj \<in> set (queue p). snd (worker obj) \<noteq> None"
    | (f) "\<exists>c \<in> set (inflight p). snd c \<noteq> None"
    | (c) "captured p \<noteq> None"
    by (auto simp add: error_pending_def)
  then show ?thesis
  proof cases
    case q
    then show ?thesis by (simp add: error_pending_def)
  next
    case f
    then obtain d where d: "d \<in> set (inflight p)" "snd d \<noteq> None" by blast
    from d(1) set_split_nth [OF i] c
    have "d = ([], r) \<or> d \<in> set (take i (inflight p)) \<union> set (drop (Suc i) (inflight p))"
      by auto
    then show ?thesis
    proof
      assume "d = ([], r)"
      with d(2) have "r \<noteq> None" by simp
      then show ?thesis by (cases "captured p") (simp_all add: error_pending_def)
    next
      assume "d \<in> set (take i (inflight p)) \<union> set (drop (Suc i) (inflight p))"
      with d(2) have "\<exists>c \<in> set (take i (inflight p) @ drop (Suc i) (inflight p)). snd c \<noteq> None"
        by auto
      then show ?thesis by (simp add: error_pending_def)
    qed
  next
    case c
    then show ?thesis by (auto simp add: error_pending_def)
  qed
qed

lemma error_pending_effect:
  assumes i: "i < length (inflight p)" and c: "inflight p ! i = (a # rest, r)"
    and err: "error_pending worker p"
  shows "error_pending worker
           (p\<lparr>inflight := (inflight p)[i := (rest, r)], shared := perform a (shared p)\<rparr>)"
proof -
  have upd: "set ((inflight p)[i := (rest, r)])
               = insert (rest, r) (set (take i (inflight p)) \<union> set (drop (Suc i) (inflight p)))"
    using i by (simp add: upd_conv_take_nth_drop)
  from err consider
      (q) "\<exists>obj \<in> set (queue p). snd (worker obj) \<noteq> None"
    | (f) "\<exists>c \<in> set (inflight p). snd c \<noteq> None"
    | (c) "captured p \<noteq> None"
    by (auto simp add: error_pending_def)
  then show ?thesis
  proof cases
    case q
    then show ?thesis by (simp add: error_pending_def)
  next
    case f
    then obtain d where d: "d \<in> set (inflight p)" "snd d \<noteq> None" by blast
    from d(1) set_split_nth [OF i] c
    have "d = (a # rest, r) \<or> d \<in> set (take i (inflight p)) \<union> set (drop (Suc i) (inflight p))"
      by auto
    then have "\<exists>c \<in> set ((inflight p)[i := (rest, r)]). snd c \<noteq> None"
    proof
      assume "d = (a # rest, r)"
      with d(2) have "snd (rest, r) \<noteq> None" by simp
      moreover have "(rest, r) \<in> set ((inflight p)[i := (rest, r)])"
        unfolding upd by simp
      ultimately show ?thesis by blast
    next
      assume "d \<in> set (take i (inflight p)) \<union> set (drop (Suc i) (inflight p))"
      then have "d \<in> set ((inflight p)[i := (rest, r)])"
        unfolding upd by simp
      with d(2) show ?thesis by blast
    qed
    then show ?thesis by (simp add: error_pending_def)
  next
    case c
    then show ?thesis by (simp add: error_pending_def)
  qed
qed

lemma exec_step_error_kept:
  assumes step: "exec_step maxc worker c p = Some p'"
    and err: "error_pending worker p"
  shows "error_pending worker p'"
proof (cases c)
  case Dispatch
  with step err show ?thesis
    using error_pending_Dispatch by blast
next
  case (Advance i)
  with step have i: "i < length (inflight p)"
    by (simp split: if_splits)
  obtain as r where c: "inflight p ! i = (as, r)"
    by (cases "inflight p ! i")
  show ?thesis
  proof (cases as)
    case Nil
    with step Advance i c
    have "p' = p\<lparr>inflight := take i (inflight p) @ drop (Suc i) (inflight p),
                  captured := (case captured p of None \<Rightarrow> r | Some e \<Rightarrow> Some e)\<rparr>"
      by simp
    with error_pending_return [OF i _ err, of r] c Nil show ?thesis
      by simp
  next
    case (Cons a rest)
    with step Advance i c
    have "p' = p\<lparr>inflight := (inflight p)[i := (rest, r)], shared := perform a (shared p)\<rparr>"
      by simp
    with error_pending_effect [OF i _ err, of a rest r] c Cons show ?thesis
      by simp
  qed
qed

lemma exec_run_error_kept:
  "exec_run maxc worker sched p = Some p' \<Longrightarrow> error_pending worker p \<Longrightarrow>
   error_pending worker p'"
proof (induction sched arbitrary: p)
  case Nil
  then show ?case by simp
next
  case (Cons c cs)
  from Cons.prems(1) obtain q where q: "exec_step maxc worker c p = Some q"
    and r: "exec_run maxc worker cs q = Some p'"
    by (auto split: option.splits)
  from Cons.IH [OF r exec_step_error_kept [OF q Cons.prems(2)]] show ?case .
qed

lemma runInParallel_captures:
  assumes run: "runInParallel sched objs worker limit s = Some (r, s')"
    and obj: "obj \<in> set objs" and ret: "snd (worker obj) \<noteq> None"
  shows "r \<noteq> None"
proof -
  let ?p0 = "\<lparr>queue = objs, inflight = [], shared = s, captured = None\<rparr>"
  from run obtain p where p: "exec_run limit worker sched ?p0 = Some p"
    and fin: "queue p = []" "inflight p = []" and r: "r = captured p"
    by (auto simp add: runInParallel_def split: option.splits if_splits)
  from obj ret have "error_pending worker ?p0"
    by (auto simp add: error_pending_def)
  from exec_run_error_kept [OF p this] fin r show ?thesis
    by (simp add: error_pending_def)
qed

subsection \<open>A pool with at least one worker can finish\<close>

lemma exec_run_append:
  "exec_run maxc worker (cs @ ds) p =
     (case exec_run maxc worker cs p of None \<Rightarrow> None | Some q \<Rightarrow> exec_run maxc worker ds q)"
  by (induction cs arbitrary: p) (simp_all split: option.splits)

lemma exec_run_drain:
  "inflight p = [(as, r)] \<Longrightarrow>
   exec_run maxc worker (replicate (Suc (length as)) (Advance 0)) p =
     Some (p\<lparr>inflight := [], shared := fold perform as (shared p),
             captured := (case captured p of None \<Rightarrow> r | Some e \<Rightarrow> Some e)\<rparr>)"
proof (induction as arbitrary: p)
  case Nil
  then show ?case by simp
next
  case (Cons a as)
  let ?q = "p\<lparr>inflight := [(as, r)], shared := perform a (shared p)\<rparr>"
  have "exec_step maxc worker (Advance 0) p = Some ?q"
    using Cons.prems by simp
  moreover have "inflight ?q = [(as, r)]" by simp
  ultimately show ?case
    using Cons.IH [of ?q] by simp
qed

lemma exec_run_sequential:
  assumes "1 \<le> maxc"
  shows "inflight p = [] \<Longrightarrow>
    exec_run maxc worker (sequential worker (queue p)) p =
      Some (p\<lparr>queue := [], inflight := [],
              shared := fold (\<lambda>obj. fold perform (fst (worker obj))) (queue p) (shared p),
              captured := first_error (captured p) (map (\<lambda>obj. snd (worker obj)) (queue p))\<rparr>)"
proof (induction "queue p" arbitrary: p)
  case Nil
  then show ?case by simp
next
  case (Cons obj objs)
  obtain as r where wo: "worker obj = (as, r)" by (cases "worker obj")
  let ?q = "p\<lparr>queue := objs, inflight := [(as, r)]\<rparr>"
  let ?q' = "?q\<lparr>inflight := [], shared := fold perform as (shared ?q),
             captured := (case captured ?q of None \<Rightarrow> r | Some e \<Rightarrow> Some e)\<rparr>"
  have d: "exec_step maxc worker Dispatch p = Some ?q"
    using Cons.hyps(2) [symmetric] Cons.prems assms wo by simp
  have dr: "exec_run maxc worker (replicate (Suc (length as)) (Advance 0)) ?q = Some ?q'"
    by (rule exec_run_drain) simp
  have q': "objs = queue ?q'" "inflight ?q' = []" by simp_all
  from Cons.hyps(1) [OF q'] have
    "exec_run maxc worker (sequential worker objs) ?q' =
      Some (?q'\<lparr>queue := [], inflight := [],
              shared := fold (\<lambda>obj. fold perform (fst (worker obj))) objs (shared ?q'),
              captured := first_error (captured ?q') (map (\<lambda>obj. snd (worker obj)) objs)\<rparr>)"
    by simp
  with d dr show ?case
    using Cons.hyps(2) [symmetric] wo
    by (simp add: exec_run_append del: exec_step.simps replicate.simps)
qed

text \<open>
  With a limit of at least one, the schedule that runs the calls one after the other is a
  run of the executor: it returns, and what it leaves behind is what the calls do in
  input order, each run to its end.
\<close>

lemma runInParallel_sequential:
  assumes "1 \<le> limit"
  shows "runInParallel (sequential worker objs) objs worker limit s =
           Some (first_error None (map (\<lambda>obj. snd (worker obj)) objs),
                 fold (\<lambda>obj s. snd (run_call (worker obj) s)) objs s)"
  using exec_run_sequential [OF assms,
      of "\<lparr>queue = objs, inflight = [], shared = s, captured = None\<rparr>" worker]
  by (simp add: runInParallel_def run_call_def)

lemma validateObjects_returns:
  assumes "1 \<le> limit"
  shows "\<exists>res s. validateObjects summary (sequential (validate (newValidator cl colors)) objs)
                   objs cl limit colors out = Some (res, s)"
  by (simp add: validateObjects_def Let_def runInParallel_sequential [OF assms])

subsection \<open>What validateObjects returns\<close>

lemma validateObjects_SomeD:
  assumes "validateObjects summary sched objs cl limit colors out = Some (res, s)"
  shows "\<exists>vErr s1.
           runInParallel sched objs (validate (newValidator cl colors)) limit
             \<lparr>w = out, stats = emptyStats\<rparr> = Some (vErr, s1)
           \<and> s = s1\<lparr>w := w s1 @ [summary (stats s1)]\<rparr>
           \<and> res = (if vErr \<noteq> None then vErr
                    else if length (Invalid (stats s1)) > 0 then
                      Some (Errorf (itoa (length (Invalid (stats s1))) @ '' invalid objects found''))
                    else None)"
proof -
  let ?run = "runInParallel sched objs (validate (newValidator cl colors)) limit
                \<lparr>w = out, stats = emptyStats\<rparr>"
  from assms obtain vErr s1 where run: "?run = Some (vErr, s1)"
    by (cases ?run) (auto simp add: validateObjects_def Let_def)
  with assms have
    "s = s1\<lparr>w := w s1 @ [summary (stats s1)]\<rparr>"
    "res = (if vErr \<noteq> None then vErr
            else if length (Invalid (stats s1)) > 0 then
              Some (Errorf (itoa (length (Invalid (stats s1))) @ '' invalid objects found''))
            else None)"
    by (auto simp add: validateObjects_def Let_def printStats_def)
  with run show ?thesis by blast
qed

text \<open>The final statistics are a function of the objects and the client alone.\<close>

lemma validateObjects_statistics:
  assumes "validateObjects summary sched objs cl limit colors out = Some (res, s)"
  shows "ValidCount (stats s)
           = (\<Sum>obj\<leftarrow>objs. \<Sum>a\<leftarrow>fst (validate (newValidator cl colors) obj). to_valid a)"
    and "mset (Unknown (stats s))
           = (\<Sum>obj\<leftarrow>objs. \<Sum>a\<leftarrow>fst (validate (newValidator cl colors) obj). to_unknown a)"
    and "mset (Invalid (stats s))
           = (\<Sum>obj\<leftarrow>objs. \<Sum>a\<leftarrow>fst (validate (newValidator cl colors) obj). to_invalid a)"
    and "mset (Errors (stats s))
           = (\<Sum>obj\<leftarrow>objs. \<Sum>a\<leftarrow>fst (validate (newValidator cl colors) obj). to_errors a)"
proof -
  from validateObjects_SomeD [OF assms] obtain vErr s1 where
    run: "runInParallel sched objs (validate (newValidator cl colors)) limit
            \<lparr>w = out, stats = emptyStats\<rparr> = Some (vErr, s1)"
    and s: "stats s = stats s1"
    by auto
  from runInParallel_balance [of "\<lambda>s. ValidCount (stats s)" to_valid, OF perform_valid run] s
  show "ValidCount (stats s)
           = (\<Sum>obj\<leftarrow>objs. \<Sum>a\<leftarrow>fst (validate (newValidator cl colors) obj). to_valid a)"
    by (simp add: emptyStats_def)
  from runInParallel_balance [of "\<lambda>s. mset (Unknown (stats s))" to_unknown, OF perform_unknown run] s
  show "mset (Unknown (stats s))
           = (\<Sum>obj\<leftarrow>objs. \<Sum>a\<leftarrow>fst (validate (newValidator cl colors) obj). to_unknown a)"
    by (simp add: emptyStats_def)
  from runInParallel_balance [of "\<lambda>s. mset (Invalid (stats s))" to_invalid, OF perform_invalid run] s
  show "mset (Invalid (stats s))
           = (\<Sum>obj\<leftarrow>objs. \<Sum>a\<leftarrow>fst (validate (newValidator cl colors) obj). to_invalid a)"
    by (simp add: emptyStats_def)
  from runInParallel_balance [of "\<lambda>s. mset (Errors (stats s))" to_errors, OF perform_errors run] s
  show "mset (Errors (stats s))
           = (\<Sum>obj\<leftarrow>objs. \<Sum>a\<leftarrow>fst (validate (newValidator cl colors) obj). to_errors a)"
    by (simp add: emptyStats_def)
qed

text \<open>
  Whenever the executor returns, validateObjects returns: the summary is appended to the
  sink and the result is reduced from the captured error and the Invalid list.
\<close>

lemma validateObjects_run:
  assumes "runInParallel sched objs (validate (newValidator cl colors)) limit
             \<lparr>w = out, stats = emptyStats\<rparr> = Some (vErr, s1)"
  shows "validateObjects summary sched objs cl limit colors out =
           Some (if vErr \<noteq> None then vErr
                 else if length (Invalid (stats s1)) > 0 then
                   Some (Errorf (itoa (length (Invalid (stats s1))) @ '' invalid objects found''))
                 else None,
                 s1\<lparr>w := w s1 @ [summary (stats s1)]\<rparr>)"
  using assms by (simp add: validateObjects_def Let_def printStats_def)

lemma run_statistics:
  assumes run: "runInParallel sched objs (validate v) limit \<lparr>w = out, stats = emptyStats\<rparr>
                  = Some (vErr, s1)"
  shows "ValidCount (stats s1) = (\<Sum>obj\<leftarrow>objs. \<Sum>a\<leftarrow>fst (validate v obj). to_valid a)"
    and "mset (Unknown (stats s1)) = (\<Sum>obj\<leftarrow>objs. \<Sum>a\<leftarrow>fst (validate v obj). to_unknown a)"
    and "mset (Invalid (stats s1)) = (\<Sum>obj\<leftarrow>objs. \<Sum>a\<leftarrow>fst (validate v obj). to_invalid a)"
    and "mset (Errors (stats s1)) = (\<Sum>obj\<leftarrow>objs. \<Sum>a\<leftarrow>fst (validate v obj). to_errors a)"
proof -
  from runInParallel_balance [of "\<lambda>s. ValidCount (stats s)" to_valid, OF perform_valid run]
  show "ValidCount (stats s1) = (\<Sum>obj\<leftarrow>objs. \<Sum>a\<leftarrow>fst (validate v obj). to_valid a)"
    by (simp add: emptyStats_def)
  from runInParallel_balance [of "\<lambda>s. mset (Unknown (stats s))" to_unknown, OF perform_unknown run]
  show "mset (Unknown (stats s1)) = (\<Sum>obj\<leftarrow>objs. \<Sum>a\<leftarrow>fst (validate v obj). to_unknown a)"
    by (simp add: emptyStats_def)
  from runInParallel_balance [of "\<lambda>s. mset (Invalid (stats s))" to_invalid, OF perform_invalid run]
  show "mset (Invalid (stats s1)) = (\<Sum>obj\<leftarrow>objs. \<Sum>a\<leftarrow>fst (validate v obj). to_invalid a)"
    by (simp add: emptyStats_def)
  from runInParallel_balance [of "\<lambda>s. mset (Errors (stats s))" to_errors, OF perform_errors run]
  show "mset (Errors (stats s1)) = (\<Sum>obj\<leftarrow>objs. \<Sum>a\<leftarrow>fst (validate v obj). to_errors a)"
    by (simp add: emptyStats_def)
qed

lemma run_exists:
  assumes "1 \<le> limit"
  shows "\<exists>sched vErr s1. runInParallel sched objs worker limit s = Some (vErr, s1)"
  using runInParallel_sequential [OF assms, of worker objs s] by blast

subsection \<open>The examples, evaluated\<close>

lemma exInterleaved_run:
  "validateObjects exSummary exInterleaved exObjects exClient 5 False [] = Some exInterleavedResult"
  by code_simp

lemma exSequential_run:
  "validateObjects exSummary (sequential (validate (newValidator exClient False)) exTwoInvalid)
     exTwoInvalid exClient 1 False [] = Some exSequentialResult"
  by code_simp

lemma exSwapped_run:
  "validateObjects exSummary exSwapped exTwoInvalid exClient 3 False [] = Some exSwappedResult"
  by code_simp

lemma exInterleaved_exec:
  "runInParallel exInterleaved exObjects (validate (newValidator exClient False)) 5
     \<lparr>w = [], stats = emptyStats\<rparr> = Some exInterleavedExec"
  by code_simp

lemma exSequential_exec:
  "runInParallel (sequential (validate (newValidator exClient False)) exTwoInvalid) exTwoInvalid
     (validate (newValidator exClient False)) 1 \<lparr>w = [], stats = emptyStats\<rparr>
     = Some exSequentialExec"
  by code_simp

lemma exSwapped_exec:
  "runInParallel exSwapped exTwoInvalid (validate (newValidator exClient False)) 3
     \<lparr>w = [], stats = emptyStats\<rparr> = Some exSwappedExec"
  by code_simp

lemma exHealthy_exec:
  "runInParallel exPaired exHealthy (validate (newValidator exClient False)) 2
     \<lparr>w = [], stats = emptyStats\<rparr> = Some exHealthyExec"
  by code_simp

lemma exHealthy_run:
  "validateObjects exSummary exPaired exHealthy exClient 2 False [] = Some exHealthyResult"
  by code_simp

lemma exEmpty_run:
  "validateObjects exSummary [] [] exClient 5 False []
     = Some (None, \<lparr>w = [''valid: 0, unknown: 0, invalid: 0, errors: 0'' @ nl],
                     stats = emptyStats\<rparr>)"
  by code_simp

section \<open>The claims\<close>

text \<open>
  C3. When the schema lookup of an object fails with the schema-not-found error, validate
  appends the display name of the object to the Unknown list, writes one line, in the dim
  style and with the question-mark glyph, and returns nil. The dim style of a validator
  built with colors is the dim escape sequence.
\<close>

theorem validate_schema_not_found:
  assumes "ValidatorFor (client v) (GetObjectKind obj) = Inl ErrSchemaNotFound"
  shows "run_call (validate v obj) s =
           (None,
            s\<lparr>w := w s @ [dim v @ ''?'' @ '' '' @ DisplayName (client v) obj
                          @ '': no schema found, cannot validate'' @ reset v @ nl],
              stats := (stats s)\<lparr>Unknown := Unknown (stats s) @ [DisplayName (client v) obj]\<rparr>\<rparr>)
         \<and> dim (newValidator cl True) = escDim"
  using assms
  by (simp add: validate_def run_call_def unknown_def unicodeQuestion_def newValidator_def Let_def)

theorem validate_schema_not_found_witness:
  "run_call (validate (newValidator exClient True) (exObject ''Mystery'' ''c'' 0))
      \<lparr>w = [], stats = emptyStats\<rparr> =
     (None,
      \<lparr>w = [escDim @ ''? c: no schema found, cannot validate'' @ escReset @ nl],
       stats = \<lparr>ValidCount = 0, Unknown = [''c''], Invalid = [], Errors = []\<rparr>\<rparr>)"
  using validate_schema_not_found
    [of "newValidator exClient True" "exObject ''Mystery'' ''c'' 0" "\<lparr>w = [], stats = emptyStats\<rparr>"]
  by (simp add: newValidator_def exClient_def exObject_def exKind_def emptyStats_def)

text \<open>
  C4. When the schema lookup of an object fails with any error other than schema-not-found,
  validate appends the display name to the Errors list, writes one line, in the red style
  and with the x glyph, that contains the message of the error, and returns that error.
  No other path returns an error: whenever validate returns an error, it is the error of a
  failed lookup and it is not schema-not-found.
\<close>

theorem validate_lookup_error:
  "(\<forall>e. ValidatorFor (client v) (GetObjectKind obj) = Inl e \<and> e \<noteq> ErrSchemaNotFound \<longrightarrow>
       run_call (validate v obj) s =
         (Some e,
          s\<lparr>w := w s @ [red v @ unicodeX @ '' '' @ DisplayName (client v) obj
                        @ '': schema fetch error '' @ Error e @ reset v @ nl],
            stats := (stats s)\<lparr>Errors := Errors (stats s) @ [DisplayName (client v) obj]\<rparr>\<rparr>))
   \<and> (\<forall>e. snd (validate v obj) = Some e \<longrightarrow>
         ValidatorFor (client v) (GetObjectKind obj) = Inl e \<and> e \<noteq> ErrSchemaNotFound)
   \<and> red (newValidator cl True) = escRed"
  by (auto simp add: validate_def run_call_def errors_def newValidator_def Let_def
           split: sum.splits if_splits)

theorem validate_lookup_error_witness:
  "run_call (validate (newValidator exClient False) (exObject ''Flaky'' ''d'' 0))
      \<lparr>w = [], stats = emptyStats\<rparr> =
     (Some exFetchError,
      \<lparr>w = [unicodeX @ '' d: schema fetch error fetch: schema not found'' @ nl],
       stats = \<lparr>ValidCount = 0, Unknown = [], Invalid = [], Errors = [''d'']\<rparr>\<rparr>)
   \<and> snd (validate (newValidator exClient False) (exObject ''Flaky'' ''d'' 0)) = Some exFetchError
   \<and> ValidatorFor exClient (exKind ''Flaky'') = Inl exFetchError
   \<and> exFetchError \<noteq> ErrSchemaNotFound"
proof -
  let ?v = "newValidator exClient False"
  let ?obj = "exObject ''Flaky'' ''d'' 0"
  let ?s = "\<lparr>w = [], stats = emptyStats\<rparr>"
  note inst = validate_lookup_error [of ?v ?obj ?s]
  have h: "ValidatorFor (client ?v) (GetObjectKind ?obj) = Inl exFetchError
             \<and> exFetchError \<noteq> ErrSchemaNotFound"
    by (simp add: newValidator_def exClient_def exObject_def exKind_def exFetchError_def)
  from inst [THEN conjunct1, rule_format, OF h]
  have r: "run_call (validate ?v ?obj) ?s =
     (Some exFetchError,
      \<lparr>w = [unicodeX @ '' d: schema fetch error fetch: schema not found'' @ nl],
       stats = \<lparr>ValidCount = 0, Unknown = [], Invalid = [], Errors = [''d'']\<rparr>\<rparr>)"
    by (simp add: newValidator_def exClient_def exObject_def emptyStats_def exFetchError_def)
  then have ret: "snd (validate ?v ?obj) = Some exFetchError"
    by (simp add: run_call_def)
  from inst [THEN conjunct2, THEN conjunct1, rule_format, OF ret]
  have "ValidatorFor exClient (exKind ''Flaky'') = Inl exFetchError
          \<and> exFetchError \<noteq> ErrSchemaNotFound"
    by (simp add: newValidator_def exObject_def)
  with r ret show ?thesis by simp
qed

text \<open>
  C5. When the schema lookup succeeds and the structural validation yields one or more
  violations, validate appends the display name to the Invalid list, writes one line in
  the red style with the x glyph, in which every violation message follows in order, each
  on a line of its own after a tab and a dash, and returns nil.
\<close>

theorem validate_invalid:
  assumes "ValidatorFor (client v) (GetObjectKind obj) = Inr schema"
    and "schema (ToUnstructured obj) \<noteq> []"
  shows "run_call (validate v obj) s =
           (None,
            s\<lparr>w := w s @ [red v @ unicodeX @ '' '' @ DisplayName (client v) obj @ '' is invalid''
                          @ concat (map (\<lambda>e. nl @ tab @ ''- '' @ Error e)
                                        (schema (ToUnstructured obj)))
                          @ reset v @ nl],
              stats := (stats s)\<lparr>Invalid := Invalid (stats s) @ [DisplayName (client v) obj]\<rparr>\<rparr>)"
proof -
  let ?sep = "nl @ tab @ ''- ''"
  have "?sep @ Join (map Error (schema (ToUnstructured obj))) ?sep
          = concat (map (\<lambda>x. ?sep @ x) (map Error (schema (ToUnstructured obj))))"
    using assms(2) by (intro Join_prefixed) simp
  then have "nl @ tab @ ''- '' @ Join (map Error (schema (ToUnstructured obj))) ?sep
          = concat (map (\<lambda>e. nl @ tab @ ''- '' @ Error e) (schema (ToUnstructured obj)))"
    by (simp add: comp_def)
  then show ?thesis
    using assms by (simp add: validate_def run_call_def invalid_def Let_def)
qed

theorem validate_invalid_witness:
  "run_call (validate (newValidator exClient True) (exObject ''Deployment'' ''b'' 2))
      \<lparr>w = [], stats = emptyStats\<rparr> =
     (None,
      \<lparr>w = [escRed @ unicodeX @ '' b is invalid''
              @ nl @ tab @ ''- field 0 is required''
              @ nl @ tab @ ''- field 1 is required'' @ escReset @ nl],
       stats = \<lparr>ValidCount = 0, Unknown = [], Invalid = [''b''], Errors = []\<rparr>\<rparr>)"
proof -
  have u: "[0..<2] = [0, Suc 0]" by (simp add: upt_rec)
  have i0: "itoa 0 = ''0''" and i1: "itoa (Suc 0) = ''1''" by code_simp+
  show ?thesis
    using validate_invalid
      [of "newValidator exClient True" "exObject ''Deployment'' ''b'' 2"
          "\<lambda>u. map (\<lambda>i. Errorf (''field '' @ itoa i @ '' is required'')) [0..<u]"
          "\<lparr>w = [], stats = emptyStats\<rparr>"]
    by (simp add: newValidator_def exClient_def exObject_def exKind_def emptyStats_def u i0 i1)
qed

text \<open>
  C6. On every path, one call of validate has exactly two effects: one write to the sink
  and one contribution to the statistics. Run on any state, it appends exactly one line to
  the sink, and it changes exactly one bucket by exactly one contribution: ValidCount
  grows by one, or the display name is appended to exactly one of Unknown, Invalid and
  Errors, and the three other buckets are as before.
\<close>

theorem validate_one_line_one_bucket:
  "(\<exists>line a. fst (validate v obj) = [Fprintf line, a]
       \<and> a \<in> {StatsValid (DisplayName (client v) obj), StatsUnknown (DisplayName (client v) obj),
              StatsInvalid (DisplayName (client v) obj), StatsErrors (DisplayName (client v) obj)}
       \<and> w (snd (run_call (validate v obj) s)) = w s @ [line])
   \<and> (let name = DisplayName (client v) obj;
           old = stats s;
           new = stats (snd (run_call (validate v obj) s))
       in (ValidCount new = ValidCount old + 1 \<and> Unknown new = Unknown old
             \<and> Invalid new = Invalid old \<and> Errors new = Errors old)
        \<or> (ValidCount new = ValidCount old \<and> Unknown new = Unknown old @ [name]
             \<and> Invalid new = Invalid old \<and> Errors new = Errors old)
        \<or> (ValidCount new = ValidCount old \<and> Unknown new = Unknown old
             \<and> Invalid new = Invalid old @ [name] \<and> Errors new = Errors old)
        \<or> (ValidCount new = ValidCount old \<and> Unknown new = Unknown old
             \<and> Invalid new = Invalid old \<and> Errors new = Errors old @ [name]))"
  by (simp add: validate_def run_call_def Let_def valid_def invalid_def unknown_def errors_def
           split: sum.splits)

text \<open>
  C10. A failed lookup is classified as Unknown exactly when the error is the sentinel
  itself. Any other error value, whatever it wraps and whatever its text, is recorded in
  the Errors list and returned to the executor. The job is then aborted: whenever the
  executor returns from a list that holds the object, it has captured an error, and
  validateObjects returns that captured error, not the count of invalid objects and not
  nil. With a limit of at least one the executor has such a run.
\<close>

theorem validate_sentinel_identity:
  assumes "ValidatorFor (client v) (GetObjectKind obj) = Inl e"
  shows "(StatsUnknown (DisplayName (client v) obj) \<in> set (fst (validate v obj))
            \<longleftrightarrow> e = ErrSchemaNotFound)
       \<and> (e = ErrSchemaNotFound \<longrightarrow> snd (validate v obj) = None)
       \<and> (e \<noteq> ErrSchemaNotFound \<longrightarrow>
            StatsErrors (DisplayName (client v) obj) \<in> set (fst (validate v obj))
            \<and> Errors (stats (snd (run_call (validate v obj) s)))
                = Errors (stats s) @ [DisplayName (client v) obj]
            \<and> snd (validate v obj) = Some e
            \<and> (\<forall>summary sched objs limit colors out vErr s1.
                  obj \<in> set objs
                  \<and> runInParallel sched objs (validate (newValidator (client v) colors)) limit
                       \<lparr>w = out, stats = emptyStats\<rparr> = Some (vErr, s1)
                  \<longrightarrow> vErr \<noteq> None
                      \<and> validateObjects summary sched objs (client v) limit colors out
                          = Some (vErr, s1\<lparr>w := w s1 @ [summary (stats s1)]\<rparr>)))
       \<and> (\<forall>objs limit colors out.
            1 \<le> limit \<longrightarrow>
            (\<exists>sched vErr s1.
               runInParallel sched objs (validate (newValidator (client v) colors)) limit
                 \<lparr>w = out, stats = emptyStats\<rparr> = Some (vErr, s1)))"
proof -
  have cls: "(StatsUnknown (DisplayName (client v) obj) \<in> set (fst (validate v obj))
               \<longleftrightarrow> e = ErrSchemaNotFound)"
    using assms by (simp add: validate_def Let_def)
  have nil: "e = ErrSchemaNotFound \<longrightarrow> snd (validate v obj) = None"
    using assms by (simp add: validate_def Let_def)
  have rec: "e \<noteq> ErrSchemaNotFound \<longrightarrow>
            StatsErrors (DisplayName (client v) obj) \<in> set (fst (validate v obj))
            \<and> Errors (stats (snd (run_call (validate v obj) s)))
                = Errors (stats s) @ [DisplayName (client v) obj]
            \<and> snd (validate v obj) = Some e"
    using assms by (simp add: validate_def Let_def run_call_def errors_def)
  have job: "vErr \<noteq> None
               \<and> validateObjects summary sched objs (client v) limit colors out
                   = Some (vErr, s1\<lparr>w := w s1 @ [summary (stats s1)]\<rparr>)"
    if ne: "e \<noteq> ErrSchemaNotFound" and mem: "obj \<in> set objs"
      and run: "runInParallel sched objs (validate (newValidator (client v) colors)) limit
                  \<lparr>w = out, stats = emptyStats\<rparr> = Some (vErr, s1)"
    for summary sched objs limit colors out vErr s1
  proof -
    have "snd (validate (newValidator (client v) colors) obj) \<noteq> None"
      using assms ne by (simp add: validate_def Let_def newValidator_def)
    from runInParallel_captures [OF run mem this] have "vErr \<noteq> None" .
    with validateObjects_run [OF run, of summary] show ?thesis
      by simp
  qed
  have ex: "\<exists>sched vErr s1.
               runInParallel sched objs (validate (newValidator (client v) colors)) limit
                 \<lparr>w = out, stats = emptyStats\<rparr> = Some (vErr, s1)"
    if "1 \<le> limit" for objs limit colors out
    using that by (rule run_exists)
  from cls nil rec job ex show ?thesis
    by blast
qed

theorem validate_sentinel_identity_witness:
  "ValidatorFor exClient (exKind ''Flaky'') = Inl (Wrapped ''fetch: schema not found'' ErrSchemaNotFound)
   \<and> StatsUnknown ''d'' \<notin> set (fst (validate (newValidator exClient False) (exObject ''Flaky'' ''d'' 0)))
   \<and> StatsErrors ''d'' \<in> set (fst (validate (newValidator exClient False) (exObject ''Flaky'' ''d'' 0)))
   \<and> snd (validate (newValidator exClient False) (exObject ''Flaky'' ''d'' 0))
        = Some (Wrapped ''fetch: schema not found'' ErrSchemaNotFound)
   \<and> exObject ''Flaky'' ''d'' 0 \<in> set exObjects
   \<and> runInParallel exInterleaved exObjects (validate (newValidator exClient False)) 5
        \<lparr>w = [], stats = emptyStats\<rparr> = Some (Some exFetchError, snd exInterleavedExec)
   \<and> Invalid (stats (snd exInterleavedExec)) = [''b'']
   \<and> validateObjects exSummary exInterleaved exObjects exClient 5 False []
        = Some (Some exFetchError, snd exInterleavedResult)
   \<and> (1::int) \<le> 5
   \<and> (\<exists>sched vErr s1.
         runInParallel sched exObjects (validate (newValidator exClient False)) 5
           \<lparr>w = [], stats = emptyStats\<rparr> = Some (vErr, s1))"
proof -
  let ?v = "newValidator exClient False"
  let ?obj = "exObject ''Flaky'' ''d'' 0"
  let ?e = "Wrapped ''fetch: schema not found'' ErrSchemaNotFound"
  have h: "ValidatorFor (client ?v) (GetObjectKind ?obj) = Inl ?e"
    by (simp add: newValidator_def exClient_def exObject_def exKind_def exFetchError_def)
  have ne: "?e \<noteq> ErrSchemaNotFound" by simp
  have mem: "?obj \<in> set exObjects" by (simp add: exObjects_def)
  have cl: "client ?v = exClient" by (simp add: newValidator_def)
  have nm: "DisplayName exClient ?obj = ''d''" by (simp add: exClient_def exObject_def)
  have run: "runInParallel exInterleaved exObjects (validate (newValidator exClient False)) 5
               \<lparr>w = [], stats = emptyStats\<rparr> = Some (Some exFetchError, snd exInterleavedExec)"
    using exInterleaved_exec by (simp add: exInterleavedExec_def)
  have inv: "Invalid (stats (snd exInterleavedExec)) = [''b'']"
    by (simp add: exInterleavedExec_def)
  have fin: "(snd exInterleavedExec)\<lparr>w := w (snd exInterleavedExec)
                 @ [exSummary (stats (snd exInterleavedExec))]\<rparr> = snd exInterleavedResult"
    unfolding exInterleavedExec_def exInterleavedResult_def by code_simp
  have one: "(1::int) \<le> 5" by simp
  note inst = validate_sentinel_identity [OF h, of "\<lparr>w = [], stats = emptyStats\<rparr>", unfolded cl nm]
  from inst ne have a: "StatsUnknown ''d'' \<notin> set (fst (validate ?v ?obj))"
    by blast
  from inst ne have b: "StatsErrors ''d'' \<in> set (fst (validate ?v ?obj))"
    "snd (validate ?v ?obj) = Some ?e"
    by blast+
  from inst ne mem run
  have "validateObjects exSummary exInterleaved exObjects exClient 5 False []
          = Some (Some exFetchError,
                  (snd exInterleavedExec)\<lparr>w := w (snd exInterleavedExec)
                     @ [exSummary (stats (snd exInterleavedExec))]\<rparr>)"
    by blast
  with fin have c: "validateObjects exSummary exInterleaved exObjects exClient 5 False []
          = Some (Some exFetchError, snd exInterleavedResult)"
    by simp
  from inst one have d: "\<exists>sched vErr s1.
         runInParallel sched exObjects (validate (newValidator exClient False)) 5
           \<lparr>w = [], stats = emptyStats\<rparr> = Some (vErr, s1)"
    by blast
  from h a b c d mem run inv show ?thesis
    by (simp add: newValidator_def exObject_def)
qed

text \<open>
  C1. Whenever the executor returns, validateObjects returns, and its result is reduced in
  this order: the error the executor captured, if there is one, whatever the statistics
  are; otherwise, if the Invalid list is not empty, an error whose text reports the
  length of the Invalid list; otherwise nil. validateObjects returns nothing only when
  the executor does not return, and with a limit of at least one the executor has a run.
\<close>

theorem validateObjects_result_precedence:
  "(\<forall>vErr s1.
      runInParallel sched objs (validate (newValidator cl colors)) limit
        \<lparr>w = out, stats = emptyStats\<rparr> = Some (vErr, s1) \<longrightarrow>
      validateObjects summary sched objs cl limit colors out =
        Some (case vErr of
                Some e \<Rightarrow> Some e
              | None \<Rightarrow>
                  if Invalid (stats s1) \<noteq> [] then
                    Some (Errorf (itoa (length (Invalid (stats s1)))
                                   @ '' invalid objects found''))
                  else None,
              s1\<lparr>w := w s1 @ [summary (stats s1)]\<rparr>))
   \<and> (validateObjects summary sched objs cl limit colors out = None \<longleftrightarrow>
        runInParallel sched objs (validate (newValidator cl colors)) limit
          \<lparr>w = out, stats = emptyStats\<rparr> = None)
   \<and> (1 \<le> limit \<longrightarrow>
        (\<exists>sched' vErr s1.
           runInParallel sched' objs (validate (newValidator cl colors)) limit
             \<lparr>w = out, stats = emptyStats\<rparr> = Some (vErr, s1)))"
proof -
  let ?run = "runInParallel sched objs (validate (newValidator cl colors)) limit
                \<lparr>w = out, stats = emptyStats\<rparr>"
  have red: "validateObjects summary sched objs cl limit colors out =
        Some (case vErr of
                Some e \<Rightarrow> Some e
              | None \<Rightarrow>
                  if Invalid (stats s1) \<noteq> [] then
                    Some (Errorf (itoa (length (Invalid (stats s1)))
                                   @ '' invalid objects found''))
                  else None,
              s1\<lparr>w := w s1 @ [summary (stats s1)]\<rparr>)"
    if "?run = Some (vErr, s1)" for vErr s1
    using validateObjects_run [OF that, of summary] by (cases vErr) simp_all
  have none: "validateObjects summary sched objs cl limit colors out = None \<longleftrightarrow> ?run = None"
  proof (cases ?run)
    case None
    then show ?thesis by (simp add: validateObjects_def Let_def)
  next
    case (Some r)
    obtain vErr s1 where "r = (vErr, s1)" by (cases r)
    with Some validateObjects_run [of sched objs cl colors limit out vErr s1 summary]
    show ?thesis by simp
  qed
  have ex: "\<exists>sched' vErr s1.
           runInParallel sched' objs (validate (newValidator cl colors)) limit
             \<lparr>w = out, stats = emptyStats\<rparr> = Some (vErr, s1)"
    if "1 \<le> limit"
    using that by (rule run_exists)
  from red none ex show ?thesis
    by blast
qed

theorem validateObjects_result_precedence_witness:
  "runInParallel exInterleaved exObjects (validate (newValidator exClient False)) 5
     \<lparr>w = [], stats = emptyStats\<rparr> = Some (Some exFetchError, snd exInterleavedExec)
   \<and> Invalid (stats (snd exInterleavedExec)) = [''b'']
   \<and> validateObjects exSummary exInterleaved exObjects exClient 5 False []
       = Some (Some exFetchError, snd exInterleavedResult)
   \<and> runInParallel exSwapped exTwoInvalid (validate (newValidator exClient False)) 3
       \<lparr>w = [], stats = emptyStats\<rparr> = Some (None, snd exSwappedExec)
   \<and> Invalid (stats (snd exSwappedExec)) = [''e'', ''b'']
   \<and> validateObjects exSummary exSwapped exTwoInvalid exClient 3 False []
       = Some (Some (Errorf ''2 invalid objects found''), snd exSwappedResult)
   \<and> runInParallel exPaired exHealthy (validate (newValidator exClient False)) 2
       \<lparr>w = [], stats = emptyStats\<rparr> = Some (None, snd exHealthyExec)
   \<and> Invalid (stats (snd exHealthyExec)) = []
   \<and> validateObjects exSummary exPaired exHealthy exClient 2 False []
       = Some (None, snd exHealthyResult)
   \<and> (1::int) \<le> 2
   \<and> (\<exists>sched' vErr s1.
         runInParallel sched' exHealthy (validate (newValidator exClient False)) 2
           \<lparr>w = [], stats = emptyStats\<rparr> = Some (vErr, s1))"
proof -
  have ra: "runInParallel exInterleaved exObjects (validate (newValidator exClient False)) 5
     \<lparr>w = [], stats = emptyStats\<rparr> = Some (Some exFetchError, snd exInterleavedExec)"
    using exInterleaved_exec by (simp add: exInterleavedExec_def)
  have rb: "runInParallel exSwapped exTwoInvalid (validate (newValidator exClient False)) 3
       \<lparr>w = [], stats = emptyStats\<rparr> = Some (None, snd exSwappedExec)"
    using exSwapped_exec by (simp add: exSwappedExec_def)
  have rc: "runInParallel exPaired exHealthy (validate (newValidator exClient False)) 2
       \<lparr>w = [], stats = emptyStats\<rparr> = Some (None, snd exHealthyExec)"
    using exHealthy_exec by (simp add: exHealthyExec_def)
  have ia: "Invalid (stats (snd exInterleavedExec)) = [''b'']"
    and ib: "Invalid (stats (snd exSwappedExec)) = [''e'', ''b'']"
    and ic: "Invalid (stats (snd exHealthyExec)) = []"
    by (simp_all add: exInterleavedExec_def exSwappedExec_def exHealthyExec_def)
  have fa: "(snd exInterleavedExec)\<lparr>w := w (snd exInterleavedExec)
                 @ [exSummary (stats (snd exInterleavedExec))]\<rparr> = snd exInterleavedResult"
    unfolding exInterleavedExec_def exInterleavedResult_def by code_simp
  have fb: "(snd exSwappedExec)\<lparr>w := w (snd exSwappedExec)
                 @ [exSummary (stats (snd exSwappedExec))]\<rparr> = snd exSwappedResult"
    unfolding exSwappedExec_def exSwappedResult_def by code_simp
  have fc: "(snd exHealthyExec)\<lparr>w := w (snd exHealthyExec)
                 @ [exSummary (stats (snd exHealthyExec))]\<rparr> = snd exHealthyResult"
    unfolding exHealthyExec_def exHealthyResult_def by code_simp
  have msg: "itoa (length [''e'', ''b'']) @ '' invalid objects found'' = ''2 invalid objects found''"
    by code_simp
  have one: "(1::int) \<le> 2" by simp
  note pa = validateObjects_result_precedence
              [where sched = exInterleaved and objs = exObjects and cl = exClient
                 and colors = False and limit = 5 and out = "[]" and summary = exSummary]
  note pb = validateObjects_result_precedence
              [where sched = exSwapped and objs = exTwoInvalid and cl = exClient
                 and colors = False and limit = 3 and out = "[]" and summary = exSummary]
  note pc = validateObjects_result_precedence
              [where sched = exPaired and objs = exHealthy and cl = exClient
                 and colors = False and limit = 2 and out = "[]" and summary = exSummary]
  from pa [THEN conjunct1, rule_format, OF ra] fa
  have a: "validateObjects exSummary exInterleaved exObjects exClient 5 False []
             = Some (Some exFetchError, snd exInterleavedResult)"
    by simp
  from pb [THEN conjunct1, rule_format, OF rb] fb ib msg
  have b: "validateObjects exSummary exSwapped exTwoInvalid exClient 3 False []
             = Some (Some (Errorf ''2 invalid objects found''), snd exSwappedResult)"
    by simp
  from pc [THEN conjunct1, rule_format, OF rc] fc ic
  have c: "validateObjects exSummary exPaired exHealthy exClient 2 False []
             = Some (None, snd exHealthyResult)"
    by simp
  from pc [THEN conjunct2, THEN conjunct2, rule_format, OF one]
  have d: "\<exists>sched' vErr s1.
         runInParallel sched' exHealthy (validate (newValidator exClient False)) 2
           \<lparr>w = [], stats = emptyStats\<rparr> = Some (vErr, s1)" .
  from ra ia a rb ib b rc ic c one d show ?thesis
    by blast
qed

text \<open>
  C2. Whenever validateObjects returns, under an executor that invokes the task exactly
  once per object, the final statistics account for every object: ValidCount and the
  lengths of Unknown, Invalid and Errors add up to the number of objects.
\<close>

theorem validateObjects_counts_every_object:
  assumes "validateObjects summary sched objs cl limit colors out = Some (res, s)"
  shows "ValidCount (stats s) + int (length (Unknown (stats s)))
           + int (length (Invalid (stats s))) + int (length (Errors (stats s)))
         = int (length objs)"
proof -
  from validateObjects_SomeD [OF assms] obtain vErr s1 where
    run: "runInParallel sched objs (validate (newValidator cl colors)) limit
            \<lparr>w = out, stats = emptyStats\<rparr> = Some (vErr, s1)"
    and s: "stats s = stats s1"
    by auto
  from runInParallel_balance [of "\<lambda>s. tally (stats s)" contribution, OF perform_tally run]
  have "tally (stats s1) = int (length objs)"
    by (simp add: validate_contribution tally_def emptyStats_def sum_list_triv)
  with s show ?thesis
    by (simp add: tally_def)
qed

theorem validateObjects_counts_every_object_witness:
  "validateObjects exSummary exInterleaved exObjects exClient 5 False [] = Some exInterleavedResult
   \<and> stats (snd exInterleavedResult)
       = \<lparr>ValidCount = 1, Unknown = [''c''], Invalid = [''b''], Errors = [''d'']\<rparr>
   \<and> (1::int) + int (length [''c'']) + int (length [''b'']) + int (length [''d''])
       = int (length exObjects)"
proof -
  have run: "validateObjects exSummary exInterleaved exObjects exClient 5 False []
               = Some (fst exInterleavedResult, snd exInterleavedResult)"
    using exInterleaved_run by simp
  have st: "stats (snd exInterleavedResult)
              = \<lparr>ValidCount = 1, Unknown = [''c''], Invalid = [''b''], Errors = [''d'']\<rparr>"
    by (simp add: exInterleavedResult_def)
  from validateObjects_counts_every_object [OF run] st exInterleaved_run show ?thesis
    by simp
qed

text \<open>
  C7. Whenever the executor returns, whatever error it captured and whatever the
  statistics are, validateObjects returns with the sink holding what it held before, then
  one report line for each object (in the order the workers wrote them), then, last, the
  summary of the final statistics. With a limit of at least one the executor has a run.
\<close>

theorem validateObjects_prints_summary:
  "(\<forall>vErr s1.
      runInParallel sched objs (validate (newValidator cl colors)) limit
        \<lparr>w = out, stats = emptyStats\<rparr> = Some (vErr, s1) \<longrightarrow>
      (\<exists>res ls.
         validateObjects summary sched objs cl limit colors out
           = Some (res, s1\<lparr>w := out @ ls @ [summary (stats s1)]\<rparr>)
         \<and> w s1 = out @ ls
         \<and> mset ls = mset (concat (map (\<lambda>obj. writes (fst (validate (newValidator cl colors) obj)))
                                        objs))
         \<and> length ls = length objs))
   \<and> (1 \<le> limit \<longrightarrow>
        (\<exists>sched' vErr s1.
           runInParallel sched' objs (validate (newValidator cl colors)) limit
             \<lparr>w = out, stats = emptyStats\<rparr> = Some (vErr, s1)))"
proof -
  let ?v = "newValidator cl colors"
  let ?lines = "concat (map (\<lambda>obj. writes (fst (validate ?v obj))) objs)"
  have main: "\<exists>res ls.
         validateObjects summary sched objs cl limit colors out
           = Some (res, s1\<lparr>w := out @ ls @ [summary (stats s1)]\<rparr>)
         \<and> w s1 = out @ ls \<and> mset ls = mset ?lines \<and> length ls = length objs"
    if run: "runInParallel sched objs (validate ?v) limit \<lparr>w = out, stats = emptyStats\<rparr>
               = Some (vErr, s1)"
    for vErr s1
  proof -
    from runInParallel_sink [OF run] obtain ls where ls: "w s1 = out @ ls"
      by auto
    from runInParallel_balance [of "\<lambda>s. mset (w s)" "\<lambda>a. mset (writes [a])", OF perform_writes run]
    have "mset (w s1) = mset out + mset ?lines"
      by (simp add: writes_sum concat_sum)
    with ls have m: "mset ls = mset ?lines"
      by simp
    have "length ?lines = length objs"
      by (simp add: length_concat comp_def validate_writes_length sum_list_triv)
    with m have len: "length ls = length objs"
      by (metis size_mset)
    from validateObjects_run [OF run, of summary] ls
    have "\<exists>res. validateObjects summary sched objs cl limit colors out
                  = Some (res, s1\<lparr>w := out @ ls @ [summary (stats s1)]\<rparr>)"
      by simp
    with ls m len show ?thesis by blast
  qed
  have ex: "\<exists>sched' vErr s1.
           runInParallel sched' objs (validate ?v) limit \<lparr>w = out, stats = emptyStats\<rparr>
             = Some (vErr, s1)"
    if "1 \<le> limit"
    using that by (rule run_exists)
  from main ex show ?thesis
    by blast
qed

theorem validateObjects_prints_summary_witness:
  "runInParallel exInterleaved exObjects (validate (newValidator exClient False)) 5
     \<lparr>w = [], stats = emptyStats\<rparr> = Some (Some exFetchError, snd exInterleavedExec)
   \<and> validateObjects exSummary exInterleaved exObjects exClient 5 False []
       = Some (Some exFetchError, snd exInterleavedResult)
   \<and> length (w (snd exInterleavedExec)) = length exObjects
   \<and> w (snd exInterleavedResult)
       = w (snd exInterleavedExec) @ [''valid: 1, unknown: 1, invalid: 1, errors: 1'' @ nl]
   \<and> runInParallel exPaired exHealthy (validate (newValidator exClient False)) 2
       \<lparr>w = [], stats = emptyStats\<rparr> = Some (None, snd exHealthyExec)
   \<and> validateObjects exSummary exPaired exHealthy exClient 2 False []
       = Some (None, snd exHealthyResult)
   \<and> length (w (snd exHealthyExec)) = length exHealthy
   \<and> w (snd exHealthyResult)
       = w (snd exHealthyExec) @ [''valid: 1, unknown: 1, invalid: 0, errors: 0'' @ nl]
   \<and> (1::int) \<le> 2
   \<and> (\<exists>sched' vErr s1.
         runInParallel sched' exHealthy (validate (newValidator exClient False)) 2
           \<lparr>w = [], stats = emptyStats\<rparr> = Some (vErr, s1))"
proof -
  have ra: "runInParallel exInterleaved exObjects (validate (newValidator exClient False)) 5
     \<lparr>w = [], stats = emptyStats\<rparr> = Some (Some exFetchError, snd exInterleavedExec)"
    using exInterleaved_exec by (simp add: exInterleavedExec_def)
  have rc: "runInParallel exPaired exHealthy (validate (newValidator exClient False)) 2
       \<lparr>w = [], stats = emptyStats\<rparr> = Some (None, snd exHealthyExec)"
    using exHealthy_exec by (simp add: exHealthyExec_def)
  have sa: "exSummary (stats (snd exInterleavedExec))
              = ''valid: 1, unknown: 1, invalid: 1, errors: 1'' @ nl"
    unfolding exInterleavedExec_def by code_simp
  have sc: "exSummary (stats (snd exHealthyExec))
              = ''valid: 1, unknown: 1, invalid: 0, errors: 0'' @ nl"
    unfolding exHealthyExec_def by code_simp
  have va: "validateObjects exSummary exInterleaved exObjects exClient 5 False []
              = Some (Some exFetchError, snd exInterleavedResult)"
    using exInterleaved_run by (simp add: exInterleavedResult_def)
  have vc: "validateObjects exSummary exPaired exHealthy exClient 2 False []
              = Some (None, snd exHealthyResult)"
    using exHealthy_run by (simp add: exHealthyResult_def)
  have one: "(1::int) \<le> 2" by simp
  note pa = validateObjects_prints_summary
              [where sched = exInterleaved and objs = exObjects and cl = exClient
                 and colors = False and limit = 5 and out = "[]" and summary = exSummary]
  note pc = validateObjects_prints_summary
              [where sched = exPaired and objs = exHealthy and cl = exClient
                 and colors = False and limit = 2 and out = "[]" and summary = exSummary]
  from pa [THEN conjunct1, rule_format, OF ra] obtain res ls where
    v1: "validateObjects exSummary exInterleaved exObjects exClient 5 False []
       = Some (res, (snd exInterleavedExec)
                      \<lparr>w := [] @ ls @ [exSummary (stats (snd exInterleavedExec))]\<rparr>)"
    and l1: "w (snd exInterleavedExec) = [] @ ls" and n1: "length ls = length exObjects"
    by blast
  from l1 have ls: "ls = w (snd exInterleavedExec)" by simp
  from v1 va have "snd exInterleavedResult = (snd exInterleavedExec)
                      \<lparr>w := [] @ ls @ [exSummary (stats (snd exInterleavedExec))]\<rparr>"
    by simp
  then have "w (snd exInterleavedResult) = ls @ [exSummary (stats (snd exInterleavedExec))]"
    by simp
  then have a2: "w (snd exInterleavedResult)
         = w (snd exInterleavedExec) @ [''valid: 1, unknown: 1, invalid: 1, errors: 1'' @ nl]"
    by (simp only: ls sa)
  from n1 ls have a1: "length (w (snd exInterleavedExec)) = length exObjects"
    by simp
  from pc [THEN conjunct1, rule_format, OF rc] obtain res' ls' where
    v2: "validateObjects exSummary exPaired exHealthy exClient 2 False []
       = Some (res', (snd exHealthyExec)
                      \<lparr>w := [] @ ls' @ [exSummary (stats (snd exHealthyExec))]\<rparr>)"
    and l2: "w (snd exHealthyExec) = [] @ ls'" and n2: "length ls' = length exHealthy"
    by blast
  from l2 have ls': "ls' = w (snd exHealthyExec)" by simp
  from v2 vc have "snd exHealthyResult = (snd exHealthyExec)
                      \<lparr>w := [] @ ls' @ [exSummary (stats (snd exHealthyExec))]\<rparr>"
    by simp
  then have "w (snd exHealthyResult) = ls' @ [exSummary (stats (snd exHealthyExec))]"
    by simp
  then have c2: "w (snd exHealthyResult)
         = w (snd exHealthyExec) @ [''valid: 1, unknown: 1, invalid: 0, errors: 0'' @ nl]"
    by (simp only: ls' sc)
  from n2 ls' have c1: "length (w (snd exHealthyExec)) = length exHealthy"
    by simp
  from pc [THEN conjunct2, rule_format, OF one]
  have d: "\<exists>sched' vErr s1.
         runInParallel sched' exHealthy (validate (newValidator exClient False)) 2
           \<lparr>w = [], stats = emptyStats\<rparr> = Some (vErr, s1)" .
  from ra va a1 a2 rc vc c1 c2 one d show ?thesis
    by blast
qed

text \<open>
  C8. doValidate returns a usage error, and calls none of its collaborators, when the
  argument list does not hold exactly one argument, and when the one argument is the
  baseline environment. Otherwise it goes on: its first call is the filter function, and
  when the filter function, the object loader and the client provider succeed, what it
  returns is what validateObjects returns on the loaded objects, that client, the
  configured limit, colors and standard output.
\<close>

theorem doValidate_usage:
  "(length args \<noteq> 1 \<longrightarrow>
      doValidate Baseline filteredObjects summary sched args config =
        ([], Some (Some (UsageError ''exactly one environment required''), Stdout config)))
   \<and> (args = [Baseline] \<longrightarrow>
      doValidate Baseline filteredObjects summary sched args config =
        ([], Some (Some (UsageError
                ''cannot validate baseline environment, use a real environment''),
              Stdout config)))
   \<and> (\<forall>env. args = [env] \<and> env \<noteq> Baseline \<longrightarrow>
        take 1 (fst (doValidate Baseline filteredObjects summary sched args config))
          = [CallFilterFunc])
   \<and> (\<forall>env fp objects cl.
        args = [env] \<and> env \<noteq> Baseline \<and> filterFunc config = Inr fp
        \<and> filteredObjects config env fp = Inr objects \<and> clientProvider config env = Inr cl \<longrightarrow>
        doValidate Baseline filteredObjects summary sched args config =
          ([CallFilterFunc, CallFilteredObjects env, CallClientProvider env, CallValidateObjects],
           map_option (\<lambda>(e, s). (e, w s))
             (validateObjects summary sched objects cl (parallel config) (Colorize config)
                (Stdout config))))"
  by (auto simp add: doValidate_def Let_def split: sum.splits)

theorem doValidate_usage_witness:
  "doValidate ''_'' exFilteredObjects exSummary exInterleaved [] exConfig =
     ([], Some (Some (UsageError ''exactly one environment required''), []))
   \<and> doValidate ''_'' exFilteredObjects exSummary exInterleaved [''dev'', ''prod''] exConfig =
     ([], Some (Some (UsageError ''exactly one environment required''), []))
   \<and> doValidate ''_'' exFilteredObjects exSummary exInterleaved [''_''] exConfig =
     ([], Some (Some (UsageError ''cannot validate baseline environment, use a real environment''),
                []))
   \<and> doValidate ''_'' exFilteredObjects exSummary exInterleaved [''dev''] exConfig =
     ([CallFilterFunc, CallFilteredObjects ''dev'', CallClientProvider ''dev'', CallValidateObjects],
      Some (Some exFetchError, w (snd exInterleavedResult)))"
proof -
  note a = doValidate_usage [of "[]" "''_''" exFilteredObjects exSummary exInterleaved exConfig]
  note b = doValidate_usage [of "[''dev'', ''prod'']" "''_''" exFilteredObjects exSummary
                                exInterleaved exConfig]
  note c = doValidate_usage [of "[''_'']" "''_''" exFilteredObjects exSummary exInterleaved exConfig]
  note d = doValidate_usage [of "[''dev'']" "''_''" exFilteredObjects exSummary exInterleaved
                                exConfig, THEN conjunct2, THEN conjunct2, THEN conjunct2,
                                rule_format, of "''dev''" "()" exObjects exClient]
  have h: "[''dev''] = [''dev''] \<and> ''dev'' \<noteq> ''_'' \<and> filterFunc exConfig = Inr ()
             \<and> exFilteredObjects exConfig ''dev'' () = Inr exObjects
             \<and> clientProvider exConfig ''dev'' = Inr exClient"
    by (simp add: exConfig_def exFilteredObjects_def)
  have cfg: "parallel exConfig = 5" "Colorize exConfig = False" "Stdout exConfig = []"
    by (simp_all add: exConfig_def)
  from a have 1: "doValidate ''_'' exFilteredObjects exSummary exInterleaved [] exConfig =
     ([], Some (Some (UsageError ''exactly one environment required''), []))"
    by (simp add: cfg)
  from b have 2: "doValidate ''_'' exFilteredObjects exSummary exInterleaved [''dev'', ''prod''] exConfig =
     ([], Some (Some (UsageError ''exactly one environment required''), []))"
    by (simp add: cfg)
  from c have 3: "doValidate ''_'' exFilteredObjects exSummary exInterleaved [''_''] exConfig =
     ([], Some (Some (UsageError ''cannot validate baseline environment, use a real environment''),
                []))"
    by (simp add: cfg)
  from d [OF h] have 4: "doValidate ''_'' exFilteredObjects exSummary exInterleaved [''dev''] exConfig =
     ([CallFilterFunc, CallFilteredObjects ''dev'', CallClientProvider ''dev'', CallValidateObjects],
      Some (Some exFetchError, w (snd exInterleavedResult)))"
    by (simp add: cfg exInterleaved_run) (simp add: exInterleavedResult_def)
  from 1 2 3 4 show ?thesis by blast
qed

text \<open>
  C9. For one list of objects and one client, take limit 1 and a limit above the number of
  objects. The executor has a run under each of the two limits. Whenever it returns
  under both, validateObjects returns under both, with the statistics the executor left,
  and these are the same up to order: the same ValidCount, and the same names with the
  same multiplicities in Unknown, in Invalid and in Errors.
\<close>

theorem validateObjects_limit_independent:
  assumes "int (length objs) < n"
  shows "(\<exists>sched vErr s. runInParallel sched objs (validate (newValidator cl colors)) 1
                            \<lparr>w = out, stats = emptyStats\<rparr> = Some (vErr, s))
       \<and> (\<exists>sched vErr s. runInParallel sched objs (validate (newValidator cl colors)) n
                            \<lparr>w = out, stats = emptyStats\<rparr> = Some (vErr, s))
       \<and> (\<forall>sched1 schedN e1 t1 eN tN.
            runInParallel sched1 objs (validate (newValidator cl colors)) 1
              \<lparr>w = out, stats = emptyStats\<rparr> = Some (e1, t1)
            \<and> runInParallel schedN objs (validate (newValidator cl colors)) n
                \<lparr>w = out, stats = emptyStats\<rparr> = Some (eN, tN)
            \<longrightarrow>
            (\<exists>res1 resN.
               validateObjects summary sched1 objs cl 1 colors out
                 = Some (res1, t1\<lparr>w := w t1 @ [summary (stats t1)]\<rparr>)
               \<and> validateObjects summary schedN objs cl n colors out
                   = Some (resN, tN\<lparr>w := w tN @ [summary (stats tN)]\<rparr>))
            \<and> ValidCount (stats t1) = ValidCount (stats tN)
            \<and> mset (Unknown (stats t1)) = mset (Unknown (stats tN))
            \<and> mset (Invalid (stats t1)) = mset (Invalid (stats tN))
            \<and> mset (Errors (stats t1)) = mset (Errors (stats tN)))"
proof -
  let ?v = "newValidator cl colors"
  let ?s0 = "\<lparr>w = out, stats = emptyStats\<rparr>"
  have e1: "\<exists>sched vErr s. runInParallel sched objs (validate ?v) 1 ?s0 = Some (vErr, s)"
    by (rule run_exists) simp
  from assms have "1 \<le> n" by simp
  then have eN: "\<exists>sched vErr s. runInParallel sched objs (validate ?v) n ?s0 = Some (vErr, s)"
    by (rule run_exists)
  have agree: "(\<exists>res1 resN.
               validateObjects summary sched1 objs cl 1 colors out
                 = Some (res1, t1\<lparr>w := w t1 @ [summary (stats t1)]\<rparr>)
               \<and> validateObjects summary schedN objs cl n colors out
                   = Some (resN, tN\<lparr>w := w tN @ [summary (stats tN)]\<rparr>))
            \<and> ValidCount (stats t1) = ValidCount (stats tN)
            \<and> mset (Unknown (stats t1)) = mset (Unknown (stats tN))
            \<and> mset (Invalid (stats t1)) = mset (Invalid (stats tN))
            \<and> mset (Errors (stats t1)) = mset (Errors (stats tN))"
    if r1: "runInParallel sched1 objs (validate ?v) 1 ?s0 = Some (e1, t1)"
      and rN: "runInParallel schedN objs (validate ?v) n ?s0 = Some (eN, tN)"
    for sched1 schedN e1 t1 eN tN
    using validateObjects_run [OF r1, of summary] validateObjects_run [OF rN, of summary]
      run_statistics [OF r1] run_statistics [OF rN]
    by simp
  from e1 eN agree show ?thesis
    by blast
qed

theorem validateObjects_limit_independent_witness:
  "int (length exTwoInvalid) < 3
   \<and> runInParallel (sequential (validate (newValidator exClient False)) exTwoInvalid) exTwoInvalid
       (validate (newValidator exClient False)) 1 \<lparr>w = [], stats = emptyStats\<rparr>
       = Some (None, snd exSequentialExec)
   \<and> runInParallel exSwapped exTwoInvalid (validate (newValidator exClient False)) 3
       \<lparr>w = [], stats = emptyStats\<rparr> = Some (None, snd exSwappedExec)
   \<and> validateObjects exSummary (sequential (validate (newValidator exClient False)) exTwoInvalid)
       exTwoInvalid exClient 1 False [] = Some exSequentialResult
   \<and> validateObjects exSummary exSwapped exTwoInvalid exClient 3 False [] = Some exSwappedResult
   \<and> Invalid (stats (snd exSequentialExec)) = [''b'', ''e'']
   \<and> Invalid (stats (snd exSwappedExec)) = [''e'', ''b'']
   \<and> mset [''b'', ''e''] = mset [''e'', ''b'']
   \<and> ValidCount (stats (snd exSequentialExec)) = ValidCount (stats (snd exSwappedExec))
   \<and> (\<exists>sched vErr s. runInParallel sched exTwoInvalid (validate (newValidator exClient False)) 3
                         \<lparr>w = [], stats = emptyStats\<rparr> = Some (vErr, s))"
proof -
  have n: "int (length exTwoInvalid) < 3"
    by (simp add: exTwoInvalid_def)
  have r1: "runInParallel (sequential (validate (newValidator exClient False)) exTwoInvalid)
       exTwoInvalid (validate (newValidator exClient False)) 1 \<lparr>w = [], stats = emptyStats\<rparr>
       = Some (None, snd exSequentialExec)"
    using exSequential_exec by (simp add: exSequentialExec_def)
  have rN: "runInParallel exSwapped exTwoInvalid (validate (newValidator exClient False)) 3
       \<lparr>w = [], stats = emptyStats\<rparr> = Some (None, snd exSwappedExec)"
    using exSwapped_exec by (simp add: exSwappedExec_def)
  have i1: "Invalid (stats (snd exSequentialExec)) = [''b'', ''e'']"
    by (simp add: exSequentialExec_def)
  have iN: "Invalid (stats (snd exSwappedExec)) = [''e'', ''b'']"
    by (simp add: exSwappedExec_def)
  note inst = validateObjects_limit_independent
                [OF n, where cl = exClient and colors = False and out = "[]"
                   and summary = exSummary]
  from inst [THEN conjunct2, THEN conjunct2, rule_format, OF conjI [OF r1 rN]] i1 iN
  have "mset [''b'', ''e''] = mset [''e'', ''b'']"
    and "ValidCount (stats (snd exSequentialExec)) = ValidCount (stats (snd exSwappedExec))"
    by simp_all
  moreover from inst
  have "\<exists>sched vErr s. runInParallel sched exTwoInvalid (validate (newValidator exClient False)) 3
                         \<lparr>w = [], stats = emptyStats\<rparr> = Some (vErr, s)"
    by blast
  ultimately show ?thesis
    using n r1 rN i1 iN exSequential_run exSwapped_run by blast
qed

end
